theory Spec2Isabelle
  imports Main "HOL-Library.Word"
begin

section \<open>The block-production worker of miner/worker.go\<close>

text \<open>
  A shallow embedding of three loops of \<^verbatim>\<open>worker\<close> (newWorkLoop, taskLoop,
  resultLoop) and of the pending-snapshot accessor. Every goroutine is modelled by the
  function that handles one message of its \<^verbatim>\<open>select\<close>; the shared fields of the
  \<^verbatim>\<open>worker\<close> struct are one record, the variables local to a loop are a record of
  their own. Objects reached through Go pointers that the code mutates or copies
  (receipts, logs, interrupt tokens, state databases) live in explicit stores: a store
  is a list, a pointer is an index into it, \<^verbatim>\<open>new\<close> appends a cell, and an index
  outside the store stands for a nil pointer, whose dereference panics. What a loop
  does that another goroutine or a collaborator can observe (logging, the engine, the
  chain, the metrics gauge, the event mux, channel operations, writes to shared
  memory) is recorded in order in an event trace.
\<close>

subsection \<open>Data\<close>

type_synonym hash = "256 word"  \<comment> \<open>common.Hash: 32 bytes; the zero value is 0\<close>
type_synonym uint64 = "64 word"
type_synonym int64 = "64 word"  \<comment> \<open>two's complement, read with sint\<close>
type_synonym int32 = "32 word"
type_synonym addr = nat  \<comment> \<open>a pointer: an index into a store\<close>

text \<open>const staleThreshold = 7\<close>

definition staleThreshold :: uint64 where
  "staleThreshold = 7"

text \<open>commitInterruptNone, commitInterruptNewHead, commitInterruptResubmit (iota).\<close>

definition commitInterruptNone :: int32 where
  "commitInterruptNone = 0"

definition commitInterruptNewHead :: int32 where
  "commitInterruptNewHead = 1"

definition commitInterruptResubmit :: int32 where
  "commitInterruptResubmit = 2"

text \<open>
  types.Header and types.Block are declared in core/types, not in miner/worker.go; the worker
  reads
  a block's number, its timestamp and its header. \<open>Number\<close> is a big integer in the
  source, \<open>SealData\<close> stands for the fields the consensus engine fills in when it
  seals and \<open>Payload\<close> for everything else.
\<close>

record header =
  Number :: nat
  Time :: uint64
  Payload :: nat
  SealData :: nat

record block =
  Header :: header

text \<open>block.NumberU64(): the low 64 bits of the header's number.\<close>

definition NumberU64 :: "block \<Rightarrow> uint64" where
  "NumberU64 b = of_nat (Number (Header b))"

text \<open>block.Number(): a copy of the header's number.\<close>

definition BlockNumberOf :: "block \<Rightarrow> nat" where
  "BlockNumberOf b = Number (Header b)"

text \<open>block.Time()\<close>

definition BlockTime :: "block \<Rightarrow> uint64" where
  "BlockTime b = Time (Header b)"

text \<open>
  types.Log and types.Receipt, with the fields the worker writes and some of the others.
  \<open>Receipt_Logs\<close> is a slice of pointers to logs.
\<close>

record log =
  Log_Address :: nat
  Log_Data :: nat
  Log_BlockHash :: hash
  Log_TxHash :: hash

record receipt =
  Receipt_Status :: uint64
  Receipt_GasUsed :: uint64
  Receipt_TxHash :: hash
  Receipt_Logs :: "addr list"
  Receipt_BlockHash :: hash
  Receipt_BlockNumber :: nat
  Receipt_TransactionIndex :: nat

text \<open>
  type task struct: the receipts are pointers into the receipt store, the state is a
  pointer into the store of state databases, createdAt is in nanoseconds.
\<close>

record task =
  receipts :: "addr list"
  state :: addr
  block :: block
  createdAt :: int

text \<open>type newWorkReq struct: interrupt points into the store of interrupt tokens.\<close>

record newWorkReq =
  interrupt :: addr
  noempty :: bool
  timestamp :: int64

datatype level = Error | Warn | Info

text \<open>The observable operations of a loop, in the order it performs them.\<close>

datatype event =
    EvLog level string
  | EvClearPending uint64
  | EvStoreInt32 addr int32
  | EvNewInt32 addr
  | EvSend newWorkReq
  | EvNewTaskHook task
  | EvSkipSealHook task
  | EvClose nat
  | EvSeal block nat
  | EvWrite block "addr list" "addr list" addr bool
  | EvGauge int64
  | EvPost block

text \<open>
  The fields of the \<^verbatim>\<open>worker\<close> struct that the loops use. \<open>'c\<close> is the chain store,
  \<open>'s\<close> the contents of a state database.
\<close>

record ('c, 's) worker =
  chain :: 'c
  pendingTasks :: "hash \<rightharpoonup> task"
  snapshotBlock :: "block option"
  snapshotState :: "addr option"
  newTxs :: int32
  newTaskHook :: bool
  skipSealHook :: "(task \<Rightarrow> bool) option"
  receiptStore :: "receipt list"
  logStore :: "log list"
  tokenStore :: "int32 list"
  stateStore :: "'s list"
  chanStore :: "bool list"
  events :: "event list"

text \<open>
  The collaborators the worker calls and whose code is not the worker's: the consensus
  engine (SealHash, Seal), the hash of a block, and the chain store (CurrentBlock,
  HasBlock, WriteBlockWithState). They are parameters of the model; an error return is
  \<open>Some\<close> of its message. The chain store receives the receipts and logs the
  pointers lead to, and the state database the task's pointer leads to (\<open>None\<close>
  for a nil pointer).
\<close>

record ('c, 's) backend =
  engine_SealHash :: "header \<Rightarrow> hash"
  engine_Seal :: "block \<Rightarrow> string option"
  Hash :: "block \<Rightarrow> hash"
  chain_CurrentBlock :: "'c \<Rightarrow> block"
  chain_HasBlock :: "'c \<Rightarrow> hash \<Rightarrow> uint64 \<Rightarrow> bool"
  chain_WriteBlockWithState ::
    "'c \<Rightarrow> block \<Rightarrow> receipt list \<Rightarrow> log list \<Rightarrow> 's option \<Rightarrow> bool \<Rightarrow> string option \<times> 'c"

datatype panic = NilDereference

text \<open>Reading through a pointer.\<close>

definition deref :: "'a list \<Rightarrow> addr \<Rightarrow> 'a option" where
  "deref st a = (if a < length st then Some (st ! a) else None)"

text \<open>The fields newWorker sets, for a chain store \<open>c\<close>; no test hook is installed.\<close>

definition newWorker :: "'c \<Rightarrow> ('c, 's) worker" where
  "newWorker c =
     \<lparr>chain = c, pendingTasks = Map.empty, snapshotBlock = None, snapshotState = None,
      newTxs = 0, newTaskHook = False, skipSealHook = None, receiptStore = [],
      logStore = [], tokenStore = [], stateStore = [], chanStore = [], events = []\<rparr>"

subsection \<open>Staleness eviction\<close>

text \<open>
  clearPending, the closure of newWorkLoop. The source ranges over the map and deletes
  every entry whose test succeeds; Go allows the deletion during the range and visits
  every remaining entry once, so the result is the map filtered by the negated test,
  whatever the order of the visit. The addition is on uint64 and wraps.
\<close>

definition stale :: "uint64 \<Rightarrow> task \<Rightarrow> bool" where
  "stale number t = (NumberU64 (block t) + staleThreshold \<le> number)"

definition clearPending :: "uint64 \<Rightarrow> ('c, 's) worker \<Rightarrow> ('c, 's) worker" where
  "clearPending number w =
     w\<lparr>pendingTasks :=
         (\<lambda>h. case pendingTasks w h of
                None \<Rightarrow> None
              | Some t \<Rightarrow> if stale number t then None else Some t),
       events := events w @ [EvClearPending number]\<rparr>"

subsection \<open>The work scheduler: newWorkLoop\<close>

text \<open>The variables newWorkLoop declares before its loop.\<close>

record newWorkLoop_locals =
  nwl_interrupt :: "addr option"
  nwl_timestamp :: int64

text \<open>
  commit, the closure of newWorkLoop. \<open>exited\<close> tells which case its select takes:
  the send of the request on newWorkCh (False) or the receive from exitCh (True), where
  the closure returns before it resets newTxs.
\<close>

definition commit ::
  "bool \<Rightarrow> int32 \<Rightarrow> bool \<Rightarrow> newWorkLoop_locals \<times> ('c, 's) worker
     \<Rightarrow> newWorkLoop_locals \<times> ('c, 's) worker" where
  "commit ne s exited lw =
     (let l = fst lw; w = snd lw;
          w1 = (case nwl_interrupt l of
                  None \<Rightarrow> w
                | Some a \<Rightarrow> w\<lparr>tokenStore := (tokenStore w)[a := s],
                              events := events w @ [EvStoreInt32 a s]\<rparr>);
          a' = length (tokenStore w1);
          w2 = w1\<lparr>tokenStore := tokenStore w1 @ [0],
                  events := events w1 @ [EvNewInt32 a']\<rparr>;
          l2 = l\<lparr>nwl_interrupt := Some a'\<rparr>
      in if exited then (l2, w2)
         else (l2, w2\<lparr>events := events w2 @
                          [EvSend \<lparr>interrupt = a', noempty = ne, timestamp = nwl_timestamp l\<rparr>],
                        newTxs := 0\<rparr>))"

text \<open>
  The two signals newWorkLoop handles, each with the wall-clock seconds time.Now().Unix()
  returns while it is handled; the chain-head event carries the new head block.
\<close>

datatype signal = StartSignal int64 | ChainHeadSignal block int64

text \<open>One round of the loop of newWorkLoop, for a signal other than exit.\<close>

fun newWorkLoop_step ::
  "('c, 's) backend \<Rightarrow> signal \<Rightarrow> bool \<Rightarrow> newWorkLoop_locals \<times> ('c, 's) worker
     \<Rightarrow> newWorkLoop_locals \<times> ('c, 's) worker" where
  "newWorkLoop_step be (StartSignal now) exited (l, w) =
     commit False commitInterruptNewHead exited
       (l\<lparr>nwl_timestamp := now\<rparr>, clearPending (NumberU64 (chain_CurrentBlock be (chain w))) w)"
| "newWorkLoop_step be (ChainHeadSignal head now) exited (l, w) =
     commit False commitInterruptNewHead exited
       (l\<lparr>nwl_timestamp := now\<rparr>, clearPending (NumberU64 head) w)"

text \<open>newWorkLoop on the signals it receives until exit; its locals start at their zero values.\<close>

fun newWorkLoop_run ::
  "('c, 's) backend \<Rightarrow> (signal \<times> bool) list \<Rightarrow> newWorkLoop_locals \<times> ('c, 's) worker
     \<Rightarrow> newWorkLoop_locals \<times> ('c, 's) worker" where
  "newWorkLoop_run be [] lw = lw"
| "newWorkLoop_run be (sx # rest) lw =
     newWorkLoop_run be rest (newWorkLoop_step be (fst sx) (snd sx) lw)"

definition newWorkLoop_init :: newWorkLoop_locals where
  "newWorkLoop_init = \<lparr>nwl_interrupt = None, nwl_timestamp = 0\<rparr>"

definition newWorkLoop ::
  "('c, 's) backend \<Rightarrow> (signal \<times> bool) list \<Rightarrow> ('c, 's) worker
     \<Rightarrow> newWorkLoop_locals \<times> ('c, 's) worker" where
  "newWorkLoop be sigs w = newWorkLoop_run be sigs (newWorkLoop_init, w)"

text \<open>The build requests a trace holds, in the order they were sent.\<close>

fun sentRequests :: "event list \<Rightarrow> newWorkReq list" where
  "sentRequests [] = []"
| "sentRequests (EvSend r # es) = r # sentRequests es"
| "sentRequests (e # es) = sentRequests es"

text \<open>
  What a round reads from its signal: the height it passes to clearPending and the
  time it stores in timestamp.
\<close>

fun signalNumber :: "('c, 's) backend \<Rightarrow> ('c, 's) worker \<Rightarrow> signal \<Rightarrow> uint64" where
  "signalNumber be w (StartSignal now) = NumberU64 (chain_CurrentBlock be (chain w))"
| "signalNumber be w (ChainHeadSignal head now) = NumberU64 head"

fun signalTime :: "signal \<Rightarrow> int64" where
  "signalTime (StartSignal now) = now"
| "signalTime (ChainHeadSignal head now) = now"

text \<open>
  The tokens of the requests sent so far differ from each other and point into the
  token store.
\<close>

definition tokensFresh :: "newWorkLoop_locals \<times> ('c, 's) worker \<Rightarrow> bool" where
  "tokensFresh lw =
     (distinct (map interrupt (sentRequests (events (snd lw)))) \<and>
      list_all (\<lambda>r. interrupt r < length (tokenStore (snd lw))) (sentRequests (events (snd lw))))"

subsection \<open>The sealing dispatcher: taskLoop\<close>

text \<open>The variables taskLoop declares before its loop; prev starts as the zero hash.\<close>

record taskLoop_locals =
  stopCh :: "nat option"
  prev :: hash

definition taskLoop_init :: taskLoop_locals where
  "taskLoop_init = \<lparr>stopCh = None, prev = 0\<rparr>"

text \<open>interrupt, the closure of taskLoop: it closes the channel of the seal in flight.\<close>

definition interrupt_seal ::
  "taskLoop_locals \<times> ('c, 's) worker \<Rightarrow> taskLoop_locals \<times> ('c, 's) worker" where
  "interrupt_seal lw =
     (case stopCh (fst lw) of
        None \<Rightarrow> lw
      | Some c \<Rightarrow>
          ((fst lw)\<lparr>stopCh := None\<rparr>,
           (snd lw)\<lparr>chanStore := (chanStore (snd lw))[c := True],
                    events := events (snd lw) @ [EvClose c]\<rparr>))"

text \<open>Whether the skip-seal hook is installed and answers true for the task.\<close>

definition skips :: "('c, 's) worker \<Rightarrow> task \<Rightarrow> bool" where
  "skips w t = (case skipSealHook w of None \<Rightarrow> False | Some f \<Rightarrow> f t)"

text \<open>
  One round of the loop of taskLoop, for a task received on taskCh. The two test hooks
  are calls of foreign code: the trace records each call, and the answer of the
  skip-seal hook is \<open>skips\<close>.
\<close>

definition taskLoop_step ::
  "('c, 's) backend \<Rightarrow> task \<Rightarrow> taskLoop_locals \<times> ('c, 's) worker
     \<Rightarrow> taskLoop_locals \<times> ('c, 's) worker" where
  "taskLoop_step be t lw =
     (let l = fst lw; w = snd lw;
          w1 = (if newTaskHook w then w\<lparr>events := events w @ [EvNewTaskHook t]\<rparr> else w);
          sealHash = engine_SealHash be (Header (block t))
      in if sealHash = prev l then (l, w1)
         else
           let lw2 = interrupt_seal (l, w1);
               c = length (chanStore (snd lw2));
               l3 = (fst lw2)\<lparr>stopCh := Some c, prev := sealHash\<rparr>;
               w3 = (snd lw2)\<lparr>chanStore := chanStore (snd lw2) @ [False]\<rparr>;
               w3h = (case skipSealHook w3 of
                        None \<Rightarrow> w3
                      | Some f \<Rightarrow> w3\<lparr>events := events w3 @ [EvSkipSealHook t]\<rparr>)
           in if skips w3 t then (l3, w3h)
              else
                let w4 = w3h\<lparr>pendingTasks := (pendingTasks w3h)(sealHash \<mapsto> t)\<rparr>;
                    w5 = w4\<lparr>events := events w4 @ [EvSeal (block t) c]\<rparr>
                in (case engine_Seal be (block t) of
                      None \<Rightarrow> (l3, w5)
                    | Some err \<Rightarrow>
                        (l3, w5\<lparr>events := events w5 @ [EvLog Warn ''Block sealing failed'']\<rparr>)))"

text \<open>taskLoop on the tasks it receives, and its exit.\<close>

fun taskLoop_run ::
  "('c, 's) backend \<Rightarrow> task list \<Rightarrow> taskLoop_locals \<times> ('c, 's) worker
     \<Rightarrow> taskLoop_locals \<times> ('c, 's) worker" where
  "taskLoop_run be [] lw = lw"
| "taskLoop_run be (t # ts) lw = taskLoop_run be ts (taskLoop_step be t lw)"

definition taskLoop_exit ::
  "taskLoop_locals \<times> ('c, 's) worker \<Rightarrow> taskLoop_locals \<times> ('c, 's) worker" where
  "taskLoop_exit lw = interrupt_seal lw"

text \<open>The number of calls of the engine's Seal a trace holds.\<close>

fun sealCalls :: "event list \<Rightarrow> nat" where
  "sealCalls [] = 0"
| "sealCalls (EvSeal b c # es) = Suc (sealCalls es)"
| "sealCalls (e # es) = sealCalls es"

subsection \<open>The result committer: resultLoop\<close>

text \<open>
  The body of the inner loop over receipt.Logs, on the log a pointer leads to: the block
  hash is set, and a log without a transaction hash belongs to the block finalization
  and gets the block's hash as its transaction hash.
\<close>

definition stampLog :: "hash \<Rightarrow> log \<Rightarrow> log" where
  "stampLog h l =
     (let l1 = l\<lparr>Log_BlockHash := h\<rparr>
      in if Log_TxHash l1 = 0 then l1\<lparr>Log_TxHash := h\<rparr> else l1)"

text \<open>The inner loop: each log is written through its pointer.\<close>

fun stampLogs :: "hash \<Rightarrow> addr list \<Rightarrow> log list \<Rightarrow> panic + log list" where
  "stampLogs h [] ls = Inr ls"
| "stampLogs h (a # as) ls =
     (case deref ls a of
        None \<Rightarrow> Inl NilDereference
      | Some l \<Rightarrow> stampLogs h as (ls[a := stampLog h l]))"

text \<open>The three assignments of the block location to a receipt.\<close>

definition located :: "hash \<Rightarrow> nat \<Rightarrow> nat \<Rightarrow> receipt \<Rightarrow> receipt" where
  "located h n i r =
     r\<lparr>Receipt_BlockHash := h, Receipt_BlockNumber := n, Receipt_TransactionIndex := i\<rparr>"

text \<open>
  The loop over task.receipts, from index \<open>i\<close> on. The block location is written into
  the task's receipt through its pointer; \<^verbatim>\<open>new(types.Receipt)\<close> and the assignment
  \<^verbatim>\<open>*receipts[i] = *receipt\<close> append a cell holding the fields of the task's receipt,
  its slice of log pointers among them; then the logs are written through these
  pointers and appended to \<open>logs\<close>. The result is the two stores, the slice
  \<open>receipts\<close> and the slice \<open>logs\<close>.
\<close>

fun stampReceipts ::
  "hash \<Rightarrow> nat \<Rightarrow> nat \<Rightarrow> addr list \<Rightarrow> receipt list \<times> log list \<Rightarrow> addr list \<times> addr list
     \<Rightarrow> panic + ((receipt list \<times> log list) \<times> (addr list \<times> addr list))" where
  "stampReceipts h n i [] st out = Inr (st, out)"
| "stampReceipts h n i (a # as) st out =
     (case deref (fst st) a of
        None \<Rightarrow> Inl NilDereference
      | Some r \<Rightarrow>
          let r1 = located h n i r;
              rs1 = (fst st)[a := r1];
              c = length rs1;
              rs2 = rs1 @ [r1]
          in (case stampLogs h (Receipt_Logs r1) (snd st) of
                Inl p \<Rightarrow> Inl p
              | Inr ls1 \<Rightarrow>
                  stampReceipts h n (Suc i) as (rs2, ls1)
                    (fst out @ [c], snd out @ Receipt_Logs r1)))"

text \<open>
  The pointers of a slice of receipts are valid: each leads into the receipt store, and
  each log pointer of the receipt it leads to leads into the log store.
\<close>

definition validReceipts :: "addr list \<Rightarrow> receipt list \<Rightarrow> log list \<Rightarrow> bool" where
  "validReceipts as rs ls =
     list_all (\<lambda>a. a < length rs \<and> list_all (\<lambda>l. l < length ls) (Receipt_Logs (rs ! a))) as"

text \<open>
  One round of the loop of resultLoop, for a value received on resultCh (\<open>None\<close> is
  the nil block). \<open>now\<close> is what time.Now().UnixNano() returns after the write. The
  key-value context of the log calls is left out.
\<close>

definition resultLoop_step ::
  "('c, 's) backend \<Rightarrow> int64 \<Rightarrow> block option \<Rightarrow> ('c, 's) worker \<Rightarrow> panic + ('c, 's) worker" where
  "resultLoop_step be now res w =
     (case res of
        None \<Rightarrow> Inr w
      | Some blk \<Rightarrow>
          if chain_HasBlock be (chain w) (Hash be blk) (NumberU64 blk) then Inr w
          else
            let sealhash = engine_SealHash be (Header blk);
                hash = Hash be blk
            in (case pendingTasks w sealhash of
                  None \<Rightarrow>
                    Inr (w\<lparr>events := events w @
                               [EvLog Error ''Block found but no relative pending task'']\<rparr>)
                | Some t \<Rightarrow>
                    (case stampReceipts hash (BlockNumberOf blk) 0 (receipts t)
                            (receiptStore w, logStore w) ([], []) of
                       Inl p \<Rightarrow> Inl p
                     | Inr (st, out) \<Rightarrow>
                         let w1 = w\<lparr>receiptStore := fst st, logStore := snd st\<rparr>;
                             wr = chain_WriteBlockWithState be (chain w1) blk
                                    (map (\<lambda>a. fst st ! a) (fst out))
                                    (map (\<lambda>a. snd st ! a) (snd out))
                                    (deref (stateStore w1) (state t)) True;
                             w2 = w1\<lparr>chain := snd wr,
                                     events := events w1 @
                                       [EvWrite blk (fst out) (snd out) (state t) True]\<rparr>
                         in (case fst wr of
                               Some err \<Rightarrow>
                                 Inr (w2\<lparr>events := events w2 @
                                            [EvLog Error ''Failed writing block to chain'']\<rparr>)
                             | None \<Rightarrow>
                                 Inr (w2\<lparr>events := events w2 @
                                            [EvGauge (now - BlockTime blk * 1000000000),
                                             EvLog Info ''Successfully sealed new block'',
                                             EvPost blk]\<rparr>)))))"

text \<open>resultLoop on the results it receives until exit, each with its clock reading.\<close>

fun resultLoop ::
  "('c, 's) backend \<Rightarrow> (int64 \<times> block option) list \<Rightarrow> ('c, 's) worker
     \<Rightarrow> panic + ('c, 's) worker" where
  "resultLoop be [] w = Inr w"
| "resultLoop be (x # rest) w =
     (case resultLoop_step be (fst x) (snd x) w of
        Inl p \<Rightarrow> Inl p
      | Inr w' \<Rightarrow> resultLoop be rest w')"

text \<open>Observations on a trace: the chain writes, the gauge updates, the broadcasts.\<close>

fun writeCalls :: "event list \<Rightarrow> block list" where
  "writeCalls [] = []"
| "writeCalls (EvWrite b rs ls st f # es) = b # writeCalls es"
| "writeCalls (e # es) = writeCalls es"

fun gaugeUpdates :: "event list \<Rightarrow> int64 list" where
  "gaugeUpdates [] = []"
| "gaugeUpdates (EvGauge v # es) = v # gaugeUpdates es"
| "gaugeUpdates (e # es) = gaugeUpdates es"

fun posts :: "event list \<Rightarrow> block list" where
  "posts [] = []"
| "posts (EvPost b # es) = b # posts es"
| "posts (e # es) = posts es"

fun errorLogs :: "event list \<Rightarrow> string list" where
  "errorLogs [] = []"
| "errorLogs (EvLog Error m # es) = m # errorLogs es"
| "errorLogs (e # es) = errorLogs es"

subsection \<open>The pending snapshot\<close>

text \<open>
  Modelled from the spec: StateDB.Copy of core/state, whose code is not part of
  miner/worker.go. The spec calls it an explicit clone operation that gives the reader its own
  independent copy of the state: a new state database with the contents of the one
  copied. The result is the pointer to the copy and the store that holds it.
\<close>

definition StateDB_Copy :: "addr \<Rightarrow> 's list \<Rightarrow> (addr \<times> 's list) option" where
  "StateDB_Copy a st =
     (case deref st a of None \<Rightarrow> None | Some s \<Rightarrow> Some (length st, st @ [s]))"

text \<open>pending: the snapshot block and a copy of the snapshot state.\<close>

definition pending ::
  "('c, 's) worker \<Rightarrow> panic + ((block option \<times> addr option) \<times> ('c, 's) worker)" where
  "pending w =
     (case snapshotState w of
        None \<Rightarrow> Inr ((None, None), w)
      | Some a \<Rightarrow>
          (case StateDB_Copy a (stateStore w) of
             None \<Rightarrow> Inl NilDereference
           | Some (a', st') \<Rightarrow> Inr ((snapshotBlock w, Some a'), w\<lparr>stateStore := st'\<rparr>)))"

text \<open>pendingBlock\<close>

definition pendingBlock :: "('c, 's) worker \<Rightarrow> block option" where
  "pendingBlock w = snapshotBlock w"

subsection \<open>Concrete instances for evaluating the model\<close>

text \<open>
  A block of height \<open>n\<close> with payload \<open>p\<close> and seal \<open>s\<close>, and a task for the block
  of height \<open>n\<close> and payload 1, with one receipt.
\<close>

definition demoBlock :: "nat \<Rightarrow> nat \<Rightarrow> nat \<Rightarrow> block" where
  "demoBlock n p s = \<lparr>Header = \<lparr>Number = n, Time = 4, Payload = p, SealData = s\<rparr>\<rparr>"

definition demoTask :: "nat \<Rightarrow> task" where
  "demoTask n = \<lparr>receipts = [0], state = 0, block = demoBlock n 1 0, createdAt = 9000000000\<rparr>"

text \<open>
  The receipt of the task points to two logs: the first has no transaction hash, the
  second has the transaction hash 77.
\<close>

definition demoReceipt :: receipt where
  "demoReceipt =
     \<lparr>Receipt_Status = 1, Receipt_GasUsed = 21000, Receipt_TxHash = 77, Receipt_Logs = [0, 1],
      Receipt_BlockHash = 0, Receipt_BlockNumber = 0, Receipt_TransactionIndex = 0\<rparr>"

definition demoLogs :: "log list" where
  "demoLogs =
     [\<lparr>Log_Address = 1, Log_Data = 10, Log_BlockHash = 0, Log_TxHash = 0\<rparr>,
      \<lparr>Log_Address = 2, Log_Data = 20, Log_BlockHash = 0, Log_TxHash = 77\<rparr>]"

text \<open>
  A worker on a chain that holds the genesis block, with the task pending under the
  key 5, the stores the task points into and one state database.
\<close>

definition demoWorker :: "task \<Rightarrow> (block list, nat) worker" where
  "demoWorker t =
     (newWorker [demoBlock 0 0 0])
       \<lparr>pendingTasks := [5 \<mapsto> t], receiptStore := [demoReceipt], logStore := demoLogs,
        stateStore := [42]\<rparr>"

text \<open>
  Collaborators to run the model with. The seal hash leaves the seal out (it is 5 for a
  block of height 2 and payload 1), the block hash does not. The engine refuses a block
  without payload. The chain store is the list of its blocks; it refuses a write without
  a state database.
\<close>

definition demoHash :: "block \<Rightarrow> hash" where
  "demoHash b =
     of_nat (Number (Header b) * 10000 + Payload (Header b) * 100 + SealData (Header b) + 1)"

definition demoBackend :: "(block list, nat) backend" where
  "demoBackend =
     \<lparr>engine_SealHash = (\<lambda>h. of_nat (Number h + 3 * Payload h)),
      engine_Seal = (\<lambda>b. if Payload (Header b) = 0 then Some ''no payload'' else None),
      Hash = demoHash,
      chain_CurrentBlock = (\<lambda>c. case c of [] \<Rightarrow> demoBlock 0 0 0 | b # bs \<Rightarrow> last c),
      chain_HasBlock = (\<lambda>c h n. list_ex (\<lambda>b. demoHash b = h \<and> NumberU64 b = n) c),
      chain_WriteBlockWithState =
        (\<lambda>c b rs ls st f. case st of None \<Rightarrow> (Some ''no state'', c) | Some s \<Rightarrow> (None, c @ [b]))\<rparr>"

text \<open>
  A second task with the seal hash 5, for a block with another seal; and a worker whose
  skip-seal hook vetoes every task, with one channel made.
\<close>

definition demoTask' :: task where
  "demoTask' = \<lparr>receipts = [], state = 0, block = demoBlock 2 1 9, createdAt = 9500000000\<rparr>"

definition vetoWorker :: "(block list, nat) worker" where
  "vetoWorker =
     (newWorker [demoBlock 0 0 0])\<lparr>skipSealHook := Some (\<lambda>t. True), chanStore := [False]\<rparr>"

text \<open>A worker with a pending snapshot.\<close>

definition snapshotWorker :: "(block list, nat) worker" where
  "snapshotWorker =
     (newWorker [demoBlock 0 0 0])
       \<lparr>snapshotBlock := Some (demoBlock 3 1 0), snapshotState := Some 0, stateStore := [42]\<rparr>"

section \<open>Properties\<close>

subsection \<open>Staleness eviction\<close>

lemma stale_no_wrap:
  assumes "unat (NumberU64 (block t)) + 7 < 2 ^ 64"
  shows "stale n t \<longleftrightarrow> unat (NumberU64 (block t)) + 7 \<le> unat n"
proof -
  have "unat (NumberU64 (block t) + 7) = unat (NumberU64 (block t)) + 7"
    using assms by (simp add: unat_word_ariths)
  then show ?thesis
    by (simp add: stale_def staleThreshold_def word_le_nat_alt)
qed

lemma stale_implies:
  assumes "\<not> stale n t"
  shows "unat n < unat (NumberU64 (block t)) + 7"
proof (cases "unat (NumberU64 (block t)) + 7 < 2 ^ 64")
  case True
  then show ?thesis using assms stale_no_wrap [OF True, of n] by simp
next
  case False
  have "unat n < 2 ^ 64" using unsigned_less [of n] by simp
  with False show ?thesis by simp
qed

lemma pendingTasks_clearPending:
  "pendingTasks (clearPending n w) k =
     (case pendingTasks w k of None \<Rightarrow> None | Some t \<Rightarrow> if stale n t then None else Some t)"
  by (simp add: clearPending_def)

text \<open>
  C3, amended. After clearPending has run with the observed height \<open>n\<close>, the store
  holds only tasks it held before, and none whose height \<open>h\<close> has \<open>h + 7 \<le> n\<close>. A
  task whose \<open>h + 7\<close> fits in 64 bits is kept exactly when \<open>h + 7 > n\<close>: it is removed
  at the observed height \<open>h + 7\<close> and still present at \<open>h + 6\<close>.
\<close>

theorem clearPending_evicts:
  "(pendingTasks (clearPending n w) k = Some t \<longrightarrow>
      pendingTasks w k = Some t \<and> unat n < unat (NumberU64 (block t)) + 7) \<and>
   (pendingTasks w k = Some t \<and> unat (NumberU64 (block t)) + 7 < 2 ^ 64 \<longrightarrow>
      pendingTasks (clearPending n w) k =
        (if unat (NumberU64 (block t)) + 7 \<le> unat n then None else Some t) \<and>
      pendingTasks (clearPending (NumberU64 (block t) + 7) w) k = None \<and>
      pendingTasks (clearPending (NumberU64 (block t) + 6) w) k = Some t)"
proof (intro conjI impI)
  assume a: "pendingTasks (clearPending n w) k = Some t"
  then show "pendingTasks w k = Some t"
    by (auto simp: pendingTasks_clearPending split: option.splits if_splits)
  from a have "\<not> stale n t"
    by (auto simp: pendingTasks_clearPending split: option.splits if_splits)
  then show "unat n < unat (NumberU64 (block t)) + 7" by (rule stale_implies)
next
  assume a: "pendingTasks w k = Some t \<and> unat (NumberU64 (block t)) + 7 < 2 ^ 64"
  then have p: "pendingTasks w k = Some t" and b: "unat (NumberU64 (block t)) + 7 < 2 ^ 64"
    by simp_all
  show "pendingTasks (clearPending n w) k =
        (if unat (NumberU64 (block t)) + 7 \<le> unat n then None else Some t)"
    using p stale_no_wrap [OF b, of n] by (simp add: pendingTasks_clearPending)
  have "stale (NumberU64 (block t) + 7) t"
    by (simp add: stale_def staleThreshold_def)
  then show "pendingTasks (clearPending (NumberU64 (block t) + 7) w) k = None"
    using p by (simp add: pendingTasks_clearPending)
  have "unat (NumberU64 (block t) + 6) = unat (NumberU64 (block t)) + 6"
    using b by (simp add: unat_word_ariths)
  then have "\<not> stale (NumberU64 (block t) + 6) t"
    using stale_no_wrap [OF b, of "NumberU64 (block t) + 6"] by simp
  then show "pendingTasks (clearPending (NumberU64 (block t) + 6) w) k = Some t"
    using p by (simp add: pendingTasks_clearPending)
qed

lemma demo_height: "NumberU64 (block (demoTask n)) = of_nat n"
  by (simp add: NumberU64_def demoTask_def demoBlock_def)

theorem clearPending_evicts_witness:
  "pendingTasks (demoWorker (demoTask 2)) 5 = Some (demoTask 2) \<and>
   pendingTasks (clearPending 8 (demoWorker (demoTask 2))) 5 = Some (demoTask 2) \<and>
   pendingTasks (clearPending 9 (demoWorker (demoTask 2))) 5 = None \<and>
   pendingTasks (clearPending 100 (demoWorker (demoTask 2))) 5 = None"
  using clearPending_evicts [of 8 "demoWorker (demoTask 2)" 5 "demoTask 2"]
    clearPending_evicts [of 100 "demoWorker (demoTask 2)" 5 "demoTask 2"]
  by (simp add: demo_height demoWorker_def)

text \<open>
  C3 as stated fails where the addition wraps: a task at height \<open>2^64 - 7\<close> is removed
  at the observed height \<open>2^64 - 1\<close>, which is its height plus 6.
\<close>

theorem clearPending_wraps_counterexample:
  "pendingTasks (demoWorker (demoTask 18446744073709551609)) 5
     = Some (demoTask 18446744073709551609) \<and>
   unat (NumberU64 (block (demoTask 18446744073709551609))) + 6 = unat (18446744073709551615 :: uint64) \<and>
   pendingTasks (clearPending 18446744073709551615 (demoWorker (demoTask 18446744073709551609))) 5
     = None"
  by (simp add: demo_height demoWorker_def pendingTasks_clearPending stale_def staleThreshold_def)

subsection \<open>The result committer\<close>

lemma writeCalls_append: "writeCalls (xs @ ys) = writeCalls xs @ writeCalls ys"
  by (induction xs rule: writeCalls.induct) simp_all

lemma gaugeUpdates_append: "gaugeUpdates (xs @ ys) = gaugeUpdates xs @ gaugeUpdates ys"
  by (induction xs rule: gaugeUpdates.induct) simp_all

lemma posts_append: "posts (xs @ ys) = posts xs @ posts ys"
  by (induction xs rule: posts.induct) simp_all

lemma errorLogs_append: "errorLogs (xs @ ys) = errorLogs xs @ errorLogs ys"
  by (induction xs rule: errorLogs.induct) simp_all

text \<open>
  C4, amended. A sealed block whose seal hash has no pending task leaves the chain
  store, the pending tasks and the stores as they are, and adds no chain write, no
  gauge update and no broadcast; the loop goes on with the next result. When the chain
  store does not hold the block, the round logs one error; when it holds the block,
  the round has ended at the duplicate check and logs nothing.
\<close>

theorem resultLoop_unknown_result:
  assumes "pendingTasks w (engine_SealHash be (Header blk)) = None"
  shows "\<exists>w'. resultLoop_step be now (Some blk) w = Inr w' \<and>
           chain w' = chain w \<and> pendingTasks w' = pendingTasks w \<and>
           receiptStore w' = receiptStore w \<and> logStore w' = logStore w \<and>
           stateStore w' = stateStore w \<and>
           events w' = events w @
             (if chain_HasBlock be (chain w) (Hash be blk) (NumberU64 blk) then []
              else [EvLog Error ''Block found but no relative pending task'']) \<and>
           errorLogs (events w') = errorLogs (events w) @
             (if chain_HasBlock be (chain w) (Hash be blk) (NumberU64 blk) then []
              else [''Block found but no relative pending task'']) \<and>
           writeCalls (events w') = writeCalls (events w) \<and>
           gaugeUpdates (events w') = gaugeUpdates (events w) \<and>
           posts (events w') = posts (events w) \<and>
           resultLoop be ((now, Some blk) # rest) w = resultLoop be rest w'"
  using assms
  by (simp add: resultLoop_step_def errorLogs_append writeCalls_append gaugeUpdates_append
      posts_append)

text \<open>C4 at a block of seal hash 6, where the only pending task has the key 5.\<close>

theorem resultLoop_unknown_result_witness:
  "\<exists>w'. resultLoop_step demoBackend 0 (Some (demoBlock 3 1 7)) (demoWorker (demoTask 2)) = Inr w' \<and>
     chain w' = [demoBlock 0 0 0] \<and>
     pendingTasks w' = [5 \<mapsto> demoTask 2] \<and>
     events w' = [EvLog Error ''Block found but no relative pending task''] \<and>
     writeCalls (events w') = [] \<and> gaugeUpdates (events w') = [] \<and> posts (events w') = []"
proof -
  have a: "\<not> chain_HasBlock demoBackend (chain (demoWorker (demoTask 2)))
             (Hash demoBackend (demoBlock 3 1 7)) (NumberU64 (demoBlock 3 1 7))"
    by (simp add: demoBackend_def demoWorker_def newWorker_def demoHash_def demoBlock_def
        NumberU64_def)
  have b: "pendingTasks (demoWorker (demoTask 2))
             (engine_SealHash demoBackend (Header (demoBlock 3 1 7))) = None"
    by (simp add: demoBackend_def demoWorker_def demoBlock_def)
  have c: "events (demoWorker (demoTask 2)) = [] \<and>
           chain (demoWorker (demoTask 2)) = [demoBlock 0 0 0] \<and>
           pendingTasks (demoWorker (demoTask 2)) = [5 \<mapsto> demoTask 2]"
    by (simp add: demoWorker_def newWorker_def)
  show ?thesis
    using resultLoop_unknown_result [OF b, of 0 "[]"] a
    by (auto simp add: c)
qed

text \<open>
  C4 as stated fails: the genesis block has no pending task, and the round logs no
  error for it, since the chain store holds it.
\<close>

theorem resultLoop_unknown_duplicate_counterexample:
  "pendingTasks (demoWorker (demoTask 2))
     (engine_SealHash demoBackend (Header (demoBlock 0 0 0))) = None \<and>
   resultLoop_step demoBackend 0 (Some (demoBlock 0 0 0)) (demoWorker (demoTask 2)) =
     Inr (demoWorker (demoTask 2)) \<and>
   errorLogs (events (demoWorker (demoTask 2))) = []"
proof -
  have a: "chain_HasBlock demoBackend (chain (demoWorker (demoTask 2)))
             (Hash demoBackend (demoBlock 0 0 0)) (NumberU64 (demoBlock 0 0 0))"
    by (simp add: demoBackend_def demoWorker_def newWorker_def)
  have b: "pendingTasks (demoWorker (demoTask 2))
             (engine_SealHash demoBackend (Header (demoBlock 0 0 0))) = None"
    by (simp add: demoBackend_def demoWorker_def demoBlock_def)
  have c: "events (demoWorker (demoTask 2)) = []"
    by (simp add: demoWorker_def newWorker_def)
  show ?thesis
    using a b by (simp add: resultLoop_step_def c)
qed

text \<open>
  C5. A nil result, and a block whose hash and number the chain store holds, leave the
  worker unchanged (no write, no log), and the loop goes on with the next result.
\<close>

theorem resultLoop_skips:
  "resultLoop_step be now None w = Inr w \<and>
   resultLoop be ((now, None) # rest) w = resultLoop be rest w \<and>
   (chain_HasBlock be (chain w) (Hash be blk) (NumberU64 blk) \<longrightarrow>
      resultLoop_step be now (Some blk) w = Inr w \<and>
      resultLoop be ((now, Some blk) # rest) w = resultLoop be rest w)"
  by (simp add: resultLoop_step_def)

text \<open>C5 at the genesis block, which the chain of the demo worker holds.\<close>

theorem resultLoop_skips_witness:
  "chain_HasBlock demoBackend (chain (demoWorker (demoTask 2))) (Hash demoBackend (demoBlock 0 0 0))
     (NumberU64 (demoBlock 0 0 0)) \<and>
   resultLoop_step demoBackend 0 (Some (demoBlock 0 0 0)) (demoWorker (demoTask 2)) =
     Inr (demoWorker (demoTask 2)) \<and>
   resultLoop_step demoBackend 0 None (demoWorker (demoTask 2)) = Inr (demoWorker (demoTask 2))"
proof -
  have a: "chain_HasBlock demoBackend (chain (demoWorker (demoTask 2)))
             (Hash demoBackend (demoBlock 0 0 0)) (NumberU64 (demoBlock 0 0 0))"
    by (simp add: demoBackend_def demoWorker_def newWorker_def)
  show ?thesis
    using a resultLoop_skips [of demoBackend 0 "demoWorker (demoTask 2)" "[]" "demoBlock 0 0 0"]
    by simp
qed

text \<open>
  C7. When the receipts are stamped and WriteBlockWithState returns an error, the round
  ends after one error log: it has called the write once, it updates no gauge and
  posts no event, and the loop goes on with the next result.
\<close>

theorem resultLoop_write_failure:
  assumes "\<not> chain_HasBlock be (chain w) (Hash be blk) (NumberU64 blk)"
    and "pendingTasks w (engine_SealHash be (Header blk)) = Some t"
    and "stampReceipts (Hash be blk) (BlockNumberOf blk) 0 (receipts t)
           (receiptStore w, logStore w) ([], []) = Inr (st, out)"
    and "fst (chain_WriteBlockWithState be (chain w) blk
                (map (\<lambda>a. fst st ! a) (fst out)) (map (\<lambda>a. snd st ! a) (snd out))
                (deref (stateStore w) (state t)) True) = Some err"
  shows "\<exists>w'. resultLoop_step be now (Some blk) w = Inr w' \<and>
           events w' = events w @
             [EvWrite blk (fst out) (snd out) (state t) True,
              EvLog Error ''Failed writing block to chain''] \<and>
           writeCalls (events w') = writeCalls (events w) @ [blk] \<and>
           gaugeUpdates (events w') = gaugeUpdates (events w) \<and>
           posts (events w') = posts (events w) \<and>
           resultLoop be ((now, Some blk) # rest) w = resultLoop be rest w'"
  using assms
  by (simp add: resultLoop_step_def Let_def writeCalls_append gaugeUpdates_append posts_append)

text \<open>
  C8, amended. When the write succeeds, the round updates the gauge with the clock
  reading in nanoseconds minus the timestamp of the sealed block's header times
  \<open>10^9\<close> (in 64-bit arithmetic), logs, and posts the block; the creation time of the
  task does not enter the gauge.
\<close>

theorem resultLoop_write_success:
  assumes "\<not> chain_HasBlock be (chain w) (Hash be blk) (NumberU64 blk)"
    and "pendingTasks w (engine_SealHash be (Header blk)) = Some t"
    and "stampReceipts (Hash be blk) (BlockNumberOf blk) 0 (receipts t)
           (receiptStore w, logStore w) ([], []) = Inr (st, out)"
    and "fst (chain_WriteBlockWithState be (chain w) blk
                (map (\<lambda>a. fst st ! a) (fst out)) (map (\<lambda>a. snd st ! a) (snd out))
                (deref (stateStore w) (state t)) True) = None"
  shows "\<exists>w'. resultLoop_step be now (Some blk) w = Inr w' \<and>
           events w' = events w @
             [EvWrite blk (fst out) (snd out) (state t) True,
              EvGauge (now - BlockTime blk * 1000000000),
              EvLog Info ''Successfully sealed new block'',
              EvPost blk] \<and>
           gaugeUpdates (events w') = gaugeUpdates (events w) @ [now - BlockTime blk * 1000000000] \<and>
           posts (events w') = posts (events w) @ [blk]"
  using assms
  by (simp add: resultLoop_step_def Let_def writeCalls_append gaugeUpdates_append posts_append)

lemma demo_stamp:
  "stampReceipts (Hash demoBackend (demoBlock 2 1 7)) (BlockNumberOf (demoBlock 2 1 7)) 0
     (receipts (demoTask 2)) (receiptStore (demoWorker t), logStore (demoWorker t)) ([], []) =
   Inr (([demoReceipt\<lparr>Receipt_BlockHash := 20108, Receipt_BlockNumber := 2\<rparr>,
          demoReceipt\<lparr>Receipt_BlockHash := 20108, Receipt_BlockNumber := 2\<rparr>],
         [\<lparr>Log_Address = 1, Log_Data = 10, Log_BlockHash = 20108, Log_TxHash = 20108\<rparr>,
          \<lparr>Log_Address = 2, Log_Data = 20, Log_BlockHash = 20108, Log_TxHash = 77\<rparr>]),
        ([1], [0, 1]))"
  by (simp add: demoBackend_def demoWorker_def demoTask_def demoBlock_def demoHash_def
      BlockNumberOf_def deref_def demoReceipt_def demoLogs_def stampLog_def located_def Let_def)


lemma demo_fresh:
  "\<not> chain_HasBlock demoBackend (chain (demoWorker t)) (Hash demoBackend (demoBlock 2 1 7))
       (NumberU64 (demoBlock 2 1 7))"
  by (simp add: demoBackend_def demoWorker_def newWorker_def demoHash_def demoBlock_def
      NumberU64_def)

lemma demo_pending:
  "pendingTasks ((demoWorker t)\<lparr>stateStore := ss\<rparr>)
     (engine_SealHash demoBackend (Header (demoBlock 2 1 7))) = Some t"
  by (simp add: demoBackend_def demoWorker_def demoBlock_def)

lemma demo_time: "BlockTime (demoBlock n p s) = 4"
  by (simp add: BlockTime_def demoBlock_def)

lemma demo_state: "state (demoTask n) = 0"
  by (simp add: demoTask_def)

lemma demo_createdAt: "createdAt (demoTask n) = 9000000000"
  by (simp add: demoTask_def)

lemma demo_events: "events ((demoWorker t)\<lparr>stateStore := ss\<rparr>) = []"
  by (simp add: demoWorker_def newWorker_def)

lemma demo_stamp':
  "stampReceipts (Hash demoBackend (demoBlock 2 1 7)) (BlockNumberOf (demoBlock 2 1 7)) 0
     (receipts (demoTask 2))
     (receiptStore ((demoWorker t)\<lparr>stateStore := ss\<rparr>), logStore ((demoWorker t)\<lparr>stateStore := ss\<rparr>))
     ([], []) =
   Inr (([demoReceipt\<lparr>Receipt_BlockHash := 20108, Receipt_BlockNumber := 2\<rparr>,
          demoReceipt\<lparr>Receipt_BlockHash := 20108, Receipt_BlockNumber := 2\<rparr>],
         [\<lparr>Log_Address = 1, Log_Data = 10, Log_BlockHash = 20108, Log_TxHash = 20108\<rparr>,
          \<lparr>Log_Address = 2, Log_Data = 20, Log_BlockHash = 20108, Log_TxHash = 77\<rparr>]),
        ([1], [0, 1]))"
  using demo_stamp [of t] by (simp add: demoWorker_def)

text \<open>C7 at a worker without state database, whose write the demo chain refuses.\<close>

theorem resultLoop_write_failure_witness:
  "\<exists>w'. resultLoop_step demoBackend 0 (Some (demoBlock 2 1 7))
           ((demoWorker (demoTask 2))\<lparr>stateStore := []\<rparr>) = Inr w' \<and>
         events w' = [EvWrite (demoBlock 2 1 7) [1] [0, 1] 0 True,
                      EvLog Error ''Failed writing block to chain''] \<and>
         writeCalls (events w') = [demoBlock 2 1 7] \<and>
         gaugeUpdates (events w') = [] \<and>
         posts (events w') = []"
proof -
  let ?w = "(demoWorker (demoTask 2))\<lparr>stateStore := []\<rparr>"
  have a: "\<not> chain_HasBlock demoBackend (chain ?w) (Hash demoBackend (demoBlock 2 1 7))
             (NumberU64 (demoBlock 2 1 7))"
    using demo_fresh [of "demoTask 2"] by (simp add: demoWorker_def)
  have d: "fst (chain_WriteBlockWithState demoBackend (chain ?w) (demoBlock 2 1 7) rs ls
                  (deref (stateStore ?w) (state (demoTask 2))) True) = Some ''no state''" for rs ls
    by (simp add: demoBackend_def deref_def)
  show ?thesis
    using resultLoop_write_failure [OF a demo_pending demo_stamp' d, of 0 "[]"]
    by (auto simp add: demo_events demo_state)
qed

text \<open>C8 at the clock reading of 10 seconds and a block with timestamp 4.\<close>

theorem resultLoop_write_success_witness:
  "\<exists>w'. resultLoop_step demoBackend 10000000000 (Some (demoBlock 2 1 7))
           (demoWorker (demoTask 2)) = Inr w' \<and>
         events w' = [EvWrite (demoBlock 2 1 7) [1] [0, 1] 0 True,
                      EvGauge 6000000000,
                      EvLog Info ''Successfully sealed new block'',
                      EvPost (demoBlock 2 1 7)] \<and>
         gaugeUpdates (events w') = [6000000000] \<and>
         posts (events w') = [demoBlock 2 1 7]"
proof -
  let ?w = "demoWorker (demoTask 2)"
  have b: "pendingTasks ?w (engine_SealHash demoBackend (Header (demoBlock 2 1 7))) =
             Some (demoTask 2)"
    using demo_pending [where t = "demoTask 2" and ss = "[42]"] by (simp add: demoWorker_def)
  have d: "fst (chain_WriteBlockWithState demoBackend (chain ?w) (demoBlock 2 1 7) rs ls
                  (deref (stateStore ?w) (state (demoTask 2))) True) = None" for rs ls
    by (simp add: demoBackend_def deref_def demoWorker_def demoTask_def)
  have e: "events ?w = []"
    by (simp add: demoWorker_def newWorker_def)
  show ?thesis
    using resultLoop_write_success [OF demo_fresh b demo_stamp d, of 10000000000]
    by (auto simp add: e demo_time demo_state)
qed

text \<open>
  C8 as stated fails: for a task created at 9 seconds whose block has the timestamp 4,
  committed at 10 seconds, the gauge receives 6 seconds and not the second that has
  passed since the creation of the task.
\<close>

theorem gauge_not_from_createdAt_counterexample:
  "(case resultLoop_step demoBackend 10000000000 (Some (demoBlock 2 1 7))
           (demoWorker (demoTask 2)) of
      Inl p \<Rightarrow> False
    | Inr w' \<Rightarrow>
        gaugeUpdates (events w') = [6000000000] \<and>
        sint (6000000000 :: int64) \<noteq> sint (10000000000 :: int64) - createdAt (demoTask 2))"
proof -
  let ?w = "demoWorker (demoTask 2)"
  have b: "pendingTasks ?w (engine_SealHash demoBackend (Header (demoBlock 2 1 7))) =
             Some (demoTask 2)"
    using demo_pending [where t = "demoTask 2" and ss = "[42]"] by (simp add: demoWorker_def)
  have d: "fst (chain_WriteBlockWithState demoBackend (chain ?w) (demoBlock 2 1 7) rs ls
                  (deref (stateStore ?w) (state (demoTask 2))) True) = None" for rs ls
    by (simp add: demoBackend_def deref_def demoWorker_def demoTask_def)
  have e: "events ?w = []"
    by (simp add: demoWorker_def newWorker_def)
  have "\<exists>w'. resultLoop_step demoBackend 10000000000 (Some (demoBlock 2 1 7)) ?w = Inr w' \<and>
          events w' = events ?w @ [EvWrite (demoBlock 2 1 7) [1] [0, 1] (state (demoTask 2)) True,
                 EvGauge (10000000000 - BlockTime (demoBlock 2 1 7) * 1000000000),
                 EvLog Info ''Successfully sealed new block'', EvPost (demoBlock 2 1 7)]"
    using demo_fresh [of "demoTask 2"] b demo_stamp [of "demoTask 2"] d
    by (simp add: resultLoop_step_def Let_def)
  then obtain w' where
    "resultLoop_step demoBackend 10000000000 (Some (demoBlock 2 1 7)) ?w = Inr w'"
    "events w' = events ?w @ [EvWrite (demoBlock 2 1 7) [1] [0, 1] (state (demoTask 2)) True,
                 EvGauge (10000000000 - BlockTime (demoBlock 2 1 7) * 1000000000),
                 EvLog Info ''Successfully sealed new block'', EvPost (demoBlock 2 1 7)]"
    by blast
  then show ?thesis
    by (simp add: e demo_time demo_createdAt)
qed

subsection \<open>The sealing dispatcher\<close>

lemma sealCalls_append: "sealCalls (xs @ ys) = sealCalls xs + sealCalls ys"
  by (induction xs rule: sealCalls.induct) simp_all

lemma interrupt_seal_frame:
  "pendingTasks (snd (interrupt_seal lw)) = pendingTasks (snd lw) \<and>
   skipSealHook (snd (interrupt_seal lw)) = skipSealHook (snd lw) \<and>
   newTaskHook (snd (interrupt_seal lw)) = newTaskHook (snd lw) \<and>
   sealCalls (events (snd (interrupt_seal lw))) = sealCalls (events (snd lw)) \<and>
   events (snd (interrupt_seal lw)) =
     events (snd lw) @ (case stopCh (fst lw) of None \<Rightarrow> [] | Some c \<Rightarrow> [EvClose c])"
  by (simp add: interrupt_seal_def sealCalls_append split: option.splits)

lemma taskLoop_step_duplicate:
  assumes "engine_SealHash be (Header (block t)) = prev (fst lw)"
  shows "taskLoop_step be t lw =
           (fst lw, if newTaskHook (snd lw)
                    then (snd lw)\<lparr>events := events (snd lw) @ [EvNewTaskHook t]\<rparr>
                    else snd lw)"
  using assms by (simp add: taskLoop_step_def Let_def)

lemma taskLoop_step_prev:
  "prev (fst (taskLoop_step be t lw)) = engine_SealHash be (Header (block t))"
  by (simp add: taskLoop_step_def Let_def split: option.splits)

lemma skips_events [simp]: "skips (w\<lparr>events := es\<rparr>) t = skips w t"
  by (simp add: skips_def)

lemma skips_chanStore [simp]: "skips (w\<lparr>chanStore := cs\<rparr>) t = skips w t"
  by (simp add: skips_def)

lemma skips_interrupt [simp]: "skips (snd (interrupt_seal lw)) t = skips (snd lw) t"
  by (simp add: skips_def interrupt_seal_frame)

lemma taskLoop_step_sealCalls:
  "sealCalls (events (snd (taskLoop_step be t lw))) =
     sealCalls (events (snd lw)) +
       (if engine_SealHash be (Header (block t)) \<noteq> prev (fst lw) \<and> \<not> skips (snd lw) t
        then 1 else 0)"
  by (simp add: taskLoop_step_def Let_def sealCalls_append interrupt_seal_frame
      split: option.splits)


lemma taskLoop_step_hooks:
  "newTaskHook (snd (taskLoop_step be t lw)) = newTaskHook (snd lw)"
  by (simp add: taskLoop_step_def Let_def interrupt_seal_frame split: option.splits)

text \<open>
  C2, amended. Of two tasks received one after the other whose blocks have the same seal
  hash, the second is discarded: it calls no Seal, leaves the locals, the pending tasks
  and the channels as they are, and adds nothing to the trace but the call of the
  new-task hook when one is installed. The pair calls Seal once when the seal hash of
  the first differs from \<open>prev\<close> and the skip-seal hook does not veto the first, and
  not at all otherwise.
\<close>

theorem taskLoop_dedup:
  assumes "engine_SealHash be (Header (block t2)) = engine_SealHash be (Header (block t1))"
  shows "sealCalls (events (snd (taskLoop_step be t2 (taskLoop_step be t1 lw)))) =
           sealCalls (events (snd lw)) +
             (if engine_SealHash be (Header (block t1)) \<noteq> prev (fst lw) \<and> \<not> skips (snd lw) t1
              then 1 else 0) \<and>
         sealCalls (events (snd (taskLoop_step be t2 (taskLoop_step be t1 lw)))) =
           sealCalls (events (snd (taskLoop_step be t1 lw))) \<and>
         fst (taskLoop_step be t2 (taskLoop_step be t1 lw)) = fst (taskLoop_step be t1 lw) \<and>
         pendingTasks (snd (taskLoop_step be t2 (taskLoop_step be t1 lw))) =
           pendingTasks (snd (taskLoop_step be t1 lw)) \<and>
         chanStore (snd (taskLoop_step be t2 (taskLoop_step be t1 lw))) =
           chanStore (snd (taskLoop_step be t1 lw)) \<and>
         events (snd (taskLoop_step be t2 (taskLoop_step be t1 lw))) =
           events (snd (taskLoop_step be t1 lw)) @
             (if newTaskHook (snd lw) then [EvNewTaskHook t2] else [])"
proof -
  let ?lw1 = "taskLoop_step be t1 lw"
  have dup: "engine_SealHash be (Header (block t2)) = prev (fst ?lw1)"
    using assms by (simp add: taskLoop_step_prev)
  have step2: "taskLoop_step be t2 ?lw1 =
                 (fst ?lw1, if newTaskHook (snd ?lw1)
                           then (snd ?lw1)\<lparr>events := events (snd ?lw1) @ [EvNewTaskHook t2]\<rparr>
                           else snd ?lw1)"
    by (rule taskLoop_step_duplicate [OF dup])
  have same: "sealCalls (events (snd (taskLoop_step be t2 ?lw1))) = sealCalls (events (snd ?lw1))"
    by (simp add: step2 sealCalls_append)
  show ?thesis
    using same taskLoop_step_sealCalls [of be t1 lw]
    by (simp add: step2 taskLoop_step_hooks)
qed

lemma demo_sealHash: "engine_SealHash demoBackend (Header (demoBlock n p s)) = of_nat (n + 3 * p)"
  by (simp add: demoBackend_def demoBlock_def)

lemma demo_block: "block (demoTask n) = demoBlock n 1 0 \<and> block demoTask' = demoBlock 2 1 9"
  by (simp add: demoTask_def demoTask'_def)

text \<open>C2 at two tasks of seal hash 5, received by a dispatcher that has just started.\<close>

theorem taskLoop_dedup_witness:
  "sealCalls (events (snd (taskLoop_step demoBackend demoTask'
      (taskLoop_step demoBackend (demoTask 2) (taskLoop_init, newWorker [demoBlock 0 0 0]))))) = 1"
proof -
  have a: "engine_SealHash demoBackend (Header (block demoTask')) =
           engine_SealHash demoBackend (Header (block (demoTask 2)))"
    by (simp add: demo_block demo_sealHash)
  show ?thesis
    using taskLoop_dedup [OF a, of "(taskLoop_init, newWorker [demoBlock 0 0 0])"]
    by (simp add: demo_block demo_sealHash taskLoop_init_def newWorker_def skips_def)
qed

text \<open>
  C2 as stated fails: after one task has been sealed, the pair of two more tasks of
  the same seal hash calls Seal no further time; and a pair whose first task the
  skip-seal hook vetoes calls Seal not at all.
\<close>

theorem taskLoop_dedup_counterexample:
  "sealCalls (events (snd (taskLoop_run demoBackend [demoTask 2]
      (taskLoop_init, newWorker [demoBlock 0 0 0])))) = 1 \<and>
   sealCalls (events (snd (taskLoop_run demoBackend [demoTask 2, demoTask 2, demoTask']
      (taskLoop_init, newWorker [demoBlock 0 0 0])))) = 1 \<and>
   sealCalls (events (snd (taskLoop_run demoBackend [demoTask 2, demoTask']
      (taskLoop_init, (newWorker [demoBlock 0 0 0])\<lparr>skipSealHook := Some (\<lambda>t. True)\<rparr>)))) = 0"
  by (simp add: taskLoop_step_sealCalls taskLoop_step_prev demo_block demo_sealHash
      taskLoop_init_def newWorker_def skips_def)

lemma skips_installed: "skips w t \<Longrightarrow> \<exists>f. skipSealHook w = Some f"
  by (cases "skipSealHook w") (simp_all add: skips_def)

lemma taskLoop_step_veto:
  assumes "skips (snd lw) t" and "engine_SealHash be (Header (block t)) \<noteq> prev (fst lw)"
  shows "taskLoop_step be t lw =
           (\<lparr>stopCh = Some (length (chanStore (snd lw))),
             prev = engine_SealHash be (Header (block t))\<rparr>,
            (snd lw)\<lparr>chanStore :=
                       (case stopCh (fst lw) of
                          None \<Rightarrow> chanStore (snd lw)
                        | Some c \<Rightarrow> (chanStore (snd lw))[c := True]) @ [False],
                     events := events (snd lw) @
                       (if newTaskHook (snd lw) then [EvNewTaskHook t] else []) @
                       (case stopCh (fst lw) of None \<Rightarrow> [] | Some c \<Rightarrow> [EvClose c]) @
                       [EvSkipSealHook t]\<rparr>)"
proof -
  obtain f where f: "skipSealHook (snd lw) = Some f"
    using skips_installed [OF assms(1)] by blast
  obtain l w where lw: "lw = (l, w)" by (cases lw)
  show ?thesis
    using assms f
    by (cases "stopCh l") (simp_all add: lw taskLoop_step_def Let_def interrupt_seal_def skips_def)
qed

text \<open>
  C10. When the skip-seal hook vetoes a task whose seal hash differs from \<open>prev\<close>,
  the round has closed the channel of the seal in flight before it calls the hook, and
  it ends with the seal hash of the task in \<open>prev\<close> and a new channel in
  \<open>stopCh\<close>, without an entry in the pending tasks and without a call of Seal. A
  task of the same seal hash that follows is discarded as a duplicate: the pending
  tasks and the number of calls of Seal are still what they were before the vetoed task.
\<close>

theorem taskLoop_veto_then_duplicate:
  assumes "skips (snd lw) t"
    and "engine_SealHash be (Header (block t)) \<noteq> prev (fst lw)"
    and "engine_SealHash be (Header (block t')) = engine_SealHash be (Header (block t))"
  shows "events (snd (taskLoop_step be t lw)) =
           events (snd lw) @
             (if newTaskHook (snd lw) then [EvNewTaskHook t] else []) @
             (case stopCh (fst lw) of None \<Rightarrow> [] | Some c \<Rightarrow> [EvClose c]) @
             [EvSkipSealHook t] \<and>
         prev (fst (taskLoop_step be t lw)) = engine_SealHash be (Header (block t)) \<and>
         stopCh (fst (taskLoop_step be t lw)) = Some (length (chanStore (snd lw))) \<and>
         pendingTasks (snd (taskLoop_step be t lw)) = pendingTasks (snd lw) \<and>
         sealCalls (events (snd (taskLoop_step be t lw))) = sealCalls (events (snd lw)) \<and>
         fst (taskLoop_step be t' (taskLoop_step be t lw)) = fst (taskLoop_step be t lw) \<and>
         events (snd (taskLoop_step be t' (taskLoop_step be t lw))) =
           events (snd (taskLoop_step be t lw)) @
             (if newTaskHook (snd lw) then [EvNewTaskHook t'] else []) \<and>
         pendingTasks (snd (taskLoop_step be t' (taskLoop_step be t lw))) = pendingTasks (snd lw) \<and>
         sealCalls (events (snd (taskLoop_step be t' (taskLoop_step be t lw)))) =
           sealCalls (events (snd lw))"
proof -
  let ?lw1 = "taskLoop_step be t lw"
  note veto = taskLoop_step_veto [OF assms(1,2)]
  have dup: "engine_SealHash be (Header (block t')) = prev (fst ?lw1)"
    using assms(3) by (simp add: taskLoop_step_prev)
  note second = taskLoop_step_duplicate [OF dup]
  have first: "events (snd ?lw1) =
           events (snd lw) @
             (if newTaskHook (snd lw) then [EvNewTaskHook t] else []) @
             (case stopCh (fst lw) of None \<Rightarrow> [] | Some c \<Rightarrow> [EvClose c]) @
             [EvSkipSealHook t]"
    "prev (fst ?lw1) = engine_SealHash be (Header (block t))"
    "stopCh (fst ?lw1) = Some (length (chanStore (snd lw)))"
    "pendingTasks (snd ?lw1) = pendingTasks (snd lw)"
    by (simp_all add: veto)
  have calls: "sealCalls (events (snd ?lw1)) = sealCalls (events (snd lw))"
    using assms(1) by (simp add: taskLoop_step_sealCalls)
  have "fst (taskLoop_step be t' ?lw1) = fst ?lw1"
    "events (snd (taskLoop_step be t' ?lw1)) =
       events (snd ?lw1) @ (if newTaskHook (snd lw) then [EvNewTaskHook t'] else [])"
    "pendingTasks (snd (taskLoop_step be t' ?lw1)) = pendingTasks (snd lw)"
    "sealCalls (events (snd (taskLoop_step be t' ?lw1))) = sealCalls (events (snd lw))"
    by (simp_all add: second taskLoop_step_hooks first(4) calls sealCalls_append)
  with first calls show ?thesis by simp
qed

text \<open>C10 at a dispatcher with a seal in flight on channel 0 and a hook that vetoes everything.\<close>

theorem taskLoop_veto_then_duplicate_witness:
  "events (snd (taskLoop_step demoBackend (demoTask 2) (\<lparr>stopCh = Some 0, prev = 4\<rparr>, vetoWorker))) =
     [EvClose 0, EvSkipSealHook (demoTask 2)] \<and>
   prev (fst (taskLoop_step demoBackend (demoTask 2) (\<lparr>stopCh = Some 0, prev = 4\<rparr>, vetoWorker))) = 5 \<and>
   pendingTasks (snd (taskLoop_step demoBackend demoTask'
       (taskLoop_step demoBackend (demoTask 2) (\<lparr>stopCh = Some 0, prev = 4\<rparr>, vetoWorker)))) =
     Map.empty \<and>
   sealCalls (events (snd (taskLoop_step demoBackend demoTask'
       (taskLoop_step demoBackend (demoTask 2) (\<lparr>stopCh = Some 0, prev = 4\<rparr>, vetoWorker))))) = 0"
proof -
  let ?lw = "(\<lparr>stopCh = Some 0, prev = 4\<rparr>, vetoWorker)"
  have a: "skips (snd ?lw) (demoTask 2)"
    by (simp add: skips_def vetoWorker_def)
  have b: "engine_SealHash demoBackend (Header (block (demoTask 2))) \<noteq> prev (fst ?lw)"
    by (simp add: demo_block demo_sealHash)
  have c: "engine_SealHash demoBackend (Header (block demoTask')) =
           engine_SealHash demoBackend (Header (block (demoTask 2)))"
    by (simp add: demo_block demo_sealHash)
  show ?thesis
    using taskLoop_veto_then_duplicate [OF a b c]
    by (simp add: vetoWorker_def newWorker_def demo_block demo_sealHash)
qed

subsection \<open>The work scheduler\<close>

lemma sentRequests_append: "sentRequests (xs @ ys) = sentRequests xs @ sentRequests ys"
  by (induction xs rule: sentRequests.induct) simp_all

lemma newWorkLoop_step_eq:
  "newWorkLoop_step be sg exited (l, w) =
     commit False commitInterruptNewHead exited
       (l\<lparr>nwl_timestamp := signalTime sg\<rparr>, clearPending (signalNumber be w sg) w)"
  by (cases sg) simp_all

lemma commit_events:
  "events (snd (commit ne s exited (l, w))) =
     events w @
       (case nwl_interrupt l of None \<Rightarrow> [] | Some a \<Rightarrow> [EvStoreInt32 a s]) @
       [EvNewInt32 (length (tokenStore w))] @
       (if exited then []
        else [EvSend \<lparr>interrupt = length (tokenStore w), noempty = ne,
                      timestamp = nwl_timestamp l\<rparr>])"
  by (simp add: commit_def Let_def split: option.splits)

lemma commit_tokenStore:
  "tokenStore (snd (commit ne s exited (l, w))) =
     (case nwl_interrupt l of None \<Rightarrow> tokenStore w | Some a \<Rightarrow> (tokenStore w)[a := s]) @ [0]"
  by (simp add: commit_def Let_def split: option.splits)

lemma commit_locals:
  "fst (commit ne s exited (l, w)) = l\<lparr>nwl_interrupt := Some (length (tokenStore w))\<rparr>"
  by (simp add: commit_def Let_def split: option.splits)

lemma commit_pendingTasks:
  "pendingTasks (snd (commit ne s exited (l, w))) = pendingTasks w"
  by (simp add: commit_def Let_def split: option.splits)

lemma commit_newTxs:
  "newTxs (snd (commit ne s exited (l, w))) = (if exited then newTxs w else 0)"
  by (simp add: commit_def Let_def split: option.splits)

lemma clearPending_frame:
  "tokenStore (clearPending n w) = tokenStore w \<and>
   events (clearPending n w) = events w @ [EvClearPending n]"
  by (simp add: clearPending_def)

lemma step_events:
  "events (snd (newWorkLoop_step be sg exited (l, w))) =
     events w @ [EvClearPending (signalNumber be w sg)] @
       (case nwl_interrupt l of None \<Rightarrow> [] | Some a \<Rightarrow> [EvStoreInt32 a commitInterruptNewHead]) @
       [EvNewInt32 (length (tokenStore w))] @
       (if exited then []
        else [EvSend \<lparr>interrupt = length (tokenStore w), noempty = False,
                      timestamp = signalTime sg\<rparr>])"
  by (simp add: newWorkLoop_step_eq commit_events clearPending_frame split: option.splits)

lemma step_tokenStore:
  "tokenStore (snd (newWorkLoop_step be sg exited (l, w))) =
     (case nwl_interrupt l of
        None \<Rightarrow> tokenStore w
      | Some a \<Rightarrow> (tokenStore w)[a := commitInterruptNewHead]) @ [0]"
  by (simp add: newWorkLoop_step_eq commit_tokenStore clearPending_frame split: option.splits)

lemma step_sent:
  "sentRequests (events (snd (newWorkLoop_step be sg exited (l, w)))) =
     sentRequests (events w) @
       (if exited then []
        else [\<lparr>interrupt = length (tokenStore w), noempty = False, timestamp = signalTime sg\<rparr>])"
  by (simp add: step_events sentRequests_append split: option.splits)

lemma step_fresh:
  assumes "tokensFresh lw"
  shows "tokensFresh (newWorkLoop_step be sg exited lw)"
proof -
  obtain l w where lw: "lw = (l, w)" by (cases lw)
  have len: "length (tokenStore (snd (newWorkLoop_step be sg exited (l, w)))) =
             Suc (length (tokenStore w))"
    by (simp add: step_tokenStore split: option.splits)
  from assms have d: "distinct (map interrupt (sentRequests (events w)))"
    and b: "list_all (\<lambda>r. interrupt r < length (tokenStore w)) (sentRequests (events w))"
    by (simp_all add: tokensFresh_def lw)
  from b have nin: "length (tokenStore w) \<notin> interrupt ` set (sentRequests (events w))"
    by (auto simp: list_all_iff)
  from b have b': "list_all (\<lambda>r. interrupt r < Suc (length (tokenStore w))) (sentRequests (events w))"
    by (auto simp: list_all_iff)
  show ?thesis
    unfolding tokensFresh_def lw len step_sent
    using d nin b' by simp
qed

lemma run_fresh:
  "tokensFresh lw \<Longrightarrow> tokensFresh (newWorkLoop_run be sigs lw)"
  by (induction sigs arbitrary: lw) (simp_all add: step_fresh)

lemma init_fresh: "sentRequests (events w) = [] \<Longrightarrow> tokensFresh (l, w)"
  by (simp add: tokensFresh_def)

text \<open>
  C6, amended. A round of newWorkLoop for a start or chain-head signal first evicts the
  stale pending tasks, then stores the reason code commitInterruptNewHead in the
  previous interrupt token, if there is one, then allocates a new token, whose value is
  commitInterruptNone, and then sends one request that carries the new token, the
  flag noempty = false and the time of the signal, unless its select takes the exit
  case, where it sends none. In every run from a worker that has sent no request, no
  two requests sent carry the same token.
\<close>

theorem newWorkLoop_signal:
  "events (snd (newWorkLoop_step be sg exited (l, w))) =
     events w @ [EvClearPending (signalNumber be w sg)] @
       (case nwl_interrupt l of None \<Rightarrow> [] | Some a \<Rightarrow> [EvStoreInt32 a commitInterruptNewHead]) @
       [EvNewInt32 (length (tokenStore w))] @
       (if exited then []
        else [EvSend \<lparr>interrupt = length (tokenStore w), noempty = False,
                      timestamp = signalTime sg\<rparr>]) \<and>
   pendingTasks (snd (newWorkLoop_step be sg exited (l, w))) =
     pendingTasks (clearPending (signalNumber be w sg) w) \<and>
   tokenStore (snd (newWorkLoop_step be sg exited (l, w))) =
     (case nwl_interrupt l of
        None \<Rightarrow> tokenStore w
      | Some a \<Rightarrow> (tokenStore w)[a := commitInterruptNewHead]) @ [commitInterruptNone] \<and>
   nwl_interrupt (fst (newWorkLoop_step be sg exited (l, w))) = Some (length (tokenStore w)) \<and>
   (sentRequests (events w0) = [] \<longrightarrow>
      distinct (map interrupt (sentRequests (events (snd (newWorkLoop be sigs w0))))))"
proof (intro conjI impI)
  show "events (snd (newWorkLoop_step be sg exited (l, w))) =
     events w @ [EvClearPending (signalNumber be w sg)] @
       (case nwl_interrupt l of None \<Rightarrow> [] | Some a \<Rightarrow> [EvStoreInt32 a commitInterruptNewHead]) @
       [EvNewInt32 (length (tokenStore w))] @
       (if exited then []
        else [EvSend \<lparr>interrupt = length (tokenStore w), noempty = False,
                      timestamp = signalTime sg\<rparr>])"
    by (rule step_events)
  show "pendingTasks (snd (newWorkLoop_step be sg exited (l, w))) =
     pendingTasks (clearPending (signalNumber be w sg) w)"
    by (simp add: newWorkLoop_step_eq commit_pendingTasks)
  show "tokenStore (snd (newWorkLoop_step be sg exited (l, w))) =
     (case nwl_interrupt l of
        None \<Rightarrow> tokenStore w
      | Some a \<Rightarrow> (tokenStore w)[a := commitInterruptNewHead]) @ [commitInterruptNone]"
    by (simp add: step_tokenStore commitInterruptNone_def)
  show "nwl_interrupt (fst (newWorkLoop_step be sg exited (l, w))) = Some (length (tokenStore w))"
    by (simp add: newWorkLoop_step_eq commit_locals clearPending_frame)
next
  assume "sentRequests (events w0) = []"
  then have "tokensFresh (newWorkLoop_init, w0)" by (rule init_fresh)
  then have "tokensFresh (newWorkLoop be sigs w0)"
    unfolding newWorkLoop_def by (rule run_fresh)
  then show "distinct (map interrupt (sentRequests (events (snd (newWorkLoop be sigs w0)))))"
    by (simp add: tokensFresh_def)
qed

lemma demo_worker_trace: "events (demoWorker t) = [] \<and> tokenStore (demoWorker t) = []"
  by (simp add: demoWorker_def newWorker_def)

text \<open>C6 at a chain-head signal of height 9 that follows a start signal.\<close>

theorem newWorkLoop_signal_witness:
  "events (snd (newWorkLoop_step demoBackend (ChainHeadSignal (demoBlock 9 1 1) 160) False
      (\<lparr>nwl_interrupt = Some 0, nwl_timestamp = 100\<rparr>, (demoWorker (demoTask 2))\<lparr>tokenStore := [0]\<rparr>))) =
     [EvClearPending 9, EvStoreInt32 0 1, EvNewInt32 1,
      EvSend \<lparr>interrupt = 1, noempty = False, timestamp = 160\<rparr>] \<and>
   tokenStore (snd (newWorkLoop_step demoBackend (ChainHeadSignal (demoBlock 9 1 1) 160) False
      (\<lparr>nwl_interrupt = Some 0, nwl_timestamp = 100\<rparr>, (demoWorker (demoTask 2))\<lparr>tokenStore := [0]\<rparr>))) =
     [1, 0] \<and>
   distinct (map interrupt (sentRequests (events (snd
     (newWorkLoop demoBackend
        [(StartSignal 100, False), (ChainHeadSignal (demoBlock 9 1 1) 160, False)]
        (demoWorker (demoTask 2)))))))"
  using newWorkLoop_signal [of demoBackend "ChainHeadSignal (demoBlock 9 1 1) 160" False
      "\<lparr>nwl_interrupt = Some 0, nwl_timestamp = 100\<rparr>"
      "(demoWorker (demoTask 2))\<lparr>tokenStore := [0]\<rparr>" "demoWorker (demoTask 2)"
      "[(StartSignal 100, False), (ChainHeadSignal (demoBlock 9 1 1) 160, False)]"]
  by (simp add: demo_worker_trace commitInterruptNewHead_def commitInterruptNone_def
      NumberU64_def demoBlock_def)

text \<open>
  C6 as stated fails: a start signal handled while the worker exits evicts and
  allocates a token, and sends no request.
\<close>

theorem newWorkLoop_exit_counterexample:
  "sentRequests (events (snd (newWorkLoop demoBackend [(StartSignal 100, True)]
      (demoWorker (demoTask 2))))) = [] \<and>
   events (snd (newWorkLoop demoBackend [(StartSignal 100, True)] (demoWorker (demoTask 2)))) =
     [EvClearPending 0, EvNewInt32 0]"
proof -
  have n: "signalNumber demoBackend (demoWorker (demoTask 2)) (StartSignal 100) = 0"
    by (simp add: demoBackend_def demoWorker_def newWorker_def NumberU64_def demoBlock_def)
  have "events (snd (newWorkLoop demoBackend [(StartSignal 100, True)] (demoWorker (demoTask 2)))) =
          [EvClearPending 0, EvNewInt32 0]"
    unfolding newWorkLoop_def newWorkLoop_init_def newWorkLoop_run.simps fst_conv snd_conv
      step_events n
    by (simp add: demo_worker_trace)
  then show ?thesis by simp
qed

subsection \<open>The pending snapshot\<close>

lemma pending_nil: "snapshotState w = None \<Longrightarrow> pending w = Inr ((None, None), w)"
  by (simp add: pending_def)


lemma pending_Some:
  assumes "snapshotState w = Some a" and "a < length (stateStore w)"
  shows "pending w =
           Inr ((snapshotBlock w, Some (length (stateStore w))),
                w\<lparr>stateStore := stateStore w @ [stateStore w ! a]\<rparr>)"
  using assms by (simp add: pending_def StateDB_Copy_def deref_def)

text \<open>
  C9. When a snapshot state is stored, pending returns the snapshot block and a pointer
  to a new state database with the contents of the stored one; a second call returns
  another new pointer. Neither is the stored pointer, the stored pointer and what it
  points to stay as they are, and a write through a returned pointer changes neither
  the stored snapshot state nor the other copy.
\<close>

theorem pending_independent_copy:
  assumes "snapshotState w = Some a" and "a < length (stateStore w)"
  shows "\<exists>a1 w1 a2 w2.
           pending w = Inr ((snapshotBlock w, Some a1), w1) \<and>
           pending w1 = Inr ((snapshotBlock w, Some a2), w2) \<and>
           a1 \<noteq> a \<and> a2 \<noteq> a \<and> a1 \<noteq> a2 \<and>
           length (stateStore w) \<le> a1 \<and> length (stateStore w1) \<le> a2 \<and>
           snapshotState w1 = Some a \<and> snapshotState w2 = Some a \<and>
           deref (stateStore w1) a1 = deref (stateStore w) a \<and>
           deref (stateStore w2) a2 = deref (stateStore w) a \<and>
           deref (stateStore w2) a = deref (stateStore w) a \<and>
           (\<forall>s. deref ((stateStore w1)[a1 := s]) a = deref (stateStore w) a) \<and>
           (\<forall>s. deref ((stateStore w2)[a1 := s]) a = deref (stateStore w) a) \<and>
           (\<forall>s. deref ((stateStore w2)[a1 := s]) a2 = deref (stateStore w) a) \<and>
           (\<forall>s. deref ((stateStore w2)[a2 := s]) a1 = deref (stateStore w) a)"
proof -
  let ?n = "length (stateStore w)"
  let ?w1 = "w\<lparr>stateStore := stateStore w @ [stateStore w ! a]\<rparr>"
  let ?w2 = "?w1\<lparr>stateStore := stateStore ?w1 @ [stateStore ?w1 ! a]\<rparr>"
  have p1: "pending w = Inr ((snapshotBlock w, Some ?n), ?w1)"
    by (rule pending_Some [OF assms])
  have "pending ?w1 = Inr ((snapshotBlock ?w1, Some (length (stateStore ?w1))), ?w2)"
    by (rule pending_Some) (use assms in simp_all)
  then have p2: "pending ?w1 = Inr ((snapshotBlock w, Some (Suc ?n)), ?w2)"
    by simp
  show ?thesis
    apply (rule exI [of _ ?n], rule exI [of _ ?w1], rule exI [of _ "Suc ?n"], rule exI [of _ ?w2])
    using assms p1 p2
    by (simp add: deref_def nth_append)
qed

text \<open>C9 at a worker whose snapshot state holds 42.\<close>

theorem pending_independent_copy_witness:
  "\<exists>a1 w1 a2 w2.
     pending snapshotWorker = Inr ((Some (demoBlock 3 1 0), Some a1), w1) \<and>
     pending w1 = Inr ((Some (demoBlock 3 1 0), Some a2), w2) \<and>
     a1 \<noteq> 0 \<and> a2 \<noteq> 0 \<and> a1 \<noteq> a2 \<and>
     deref (stateStore w1) a1 = Some 42 \<and>
     deref (stateStore w2) a2 = Some 42 \<and>
     deref ((stateStore w2)[a1 := 7]) 0 = Some 42 \<and>
     deref ((stateStore w2)[a1 := 7]) a2 = Some 42"
proof -
  have a: "snapshotState snapshotWorker = Some 0"
    and b: "0 < length (stateStore snapshotWorker)"
    and c: "snapshotBlock snapshotWorker = Some (demoBlock 3 1 0)"
    and d: "deref (stateStore snapshotWorker) 0 = Some 42"
    by (simp_all add: snapshotWorker_def deref_def)
  from pending_independent_copy [OF a b] show ?thesis
    unfolding c d by blast
qed

subsection \<open>Stamping of receipts and logs\<close>

lemma stampLog_idem: "stampLog h (stampLog h l) = stampLog h l"
  by (simp add: stampLog_def Let_def)

lemma stampLog_fields:
  "Log_BlockHash (stampLog h l) = h \<and>
   Log_TxHash (stampLog h l) = (if Log_TxHash l = 0 then h else Log_TxHash l) \<and>
   Log_Address (stampLog h l) = Log_Address l \<and>
   Log_Data (stampLog h l) = Log_Data l"
  by (simp add: stampLog_def Let_def)

text \<open>
  With valid pointers the inner loop does not panic; it stamps exactly the logs its
  slice points to and leaves the others as they are.
\<close>

lemma stampLogs_valid:
  assumes "list_all (\<lambda>a. a < length ls) as"
  shows "\<exists>ls'. stampLogs h as ls = Inr ls' \<and> length ls' = length ls \<and>
           (\<forall>j < length ls. ls' ! j = (if j \<in> set as then stampLog h (ls ! j) else ls ! j))"
  using assms
proof (induction as arbitrary: ls)
  case Nil
  then show ?case by simp
next
  case (Cons a as)
  let ?ls1 = "ls[a := stampLog h (ls ! a)]"
  from Cons.prems have a: "a < length ls" and rest: "list_all (\<lambda>a. a < length ?ls1) as"
    by simp_all
  from Cons.IH [OF rest] obtain ls' where
    run: "stampLogs h as ?ls1 = Inr ls'" and len: "length ls' = length ?ls1"
    and at: "\<forall>j < length ?ls1. ls' ! j = (if j \<in> set as then stampLog h (?ls1 ! j) else ?ls1 ! j)"
    by blast
  have "stampLogs h (a # as) ls = Inr ls'"
    using a run by (simp add: deref_def)
  moreover have "length ls' = length ls"
    using len by simp
  moreover have "\<forall>j < length ls. ls' ! j = (if j \<in> set (a # as) then stampLog h (ls ! j) else ls ! j)"
  proof (intro allI impI)
    fix j assume j: "j < length ls"
    then have "ls' ! j = (if j \<in> set as then stampLog h (?ls1 ! j) else ?ls1 ! j)"
      using at by simp
    then show "ls' ! j = (if j \<in> set (a # as) then stampLog h (ls ! j) else ls ! j)"
      using j by (cases "j = a") (simp_all add: stampLog_idem)
  qed
  ultimately show ?case by blast
qed


lemma located_located: "located h n i (located h' n' i' r) = located h n i r"
  by (simp add: located_def)

lemma located_Logs: "Receipt_Logs (located h n i r) = Receipt_Logs r"
  by (simp add: located_def)

lemma stampReceipts_Cons:
  assumes "a < length rs"
    and "stampLogs h (Receipt_Logs (rs ! a)) ls = Inr ls1"
  shows "stampReceipts h n i (a # as) (rs, ls) out =
           stampReceipts h n (Suc i) as
             (rs[a := located h n i (rs ! a)] @ [located h n i (rs ! a)], ls1)
             (fst out @ [length rs], snd out @ Receipt_Logs (rs ! a))"
  using assms by (simp add: deref_def Let_def located_Logs)

text \<open>
  With valid pointers the loop over the receipts does not panic. The slice it builds
  points to one new cell for each receipt of the task, in their order; the cell at
  position \<open>k\<close> holds the task's receipt with the block hash, the block number
  and the index \<open>i + k\<close>. The slice of logs is made of the log pointers of the
  task's receipts, and the logs they lead to are stamped.
\<close>

lemma stampReceipts_valid:
  assumes "validReceipts as rs ls"
  shows "\<exists>rs' ls'.
           stampReceipts h n i as (rs, ls) out =
             Inr ((rs', ls'),
                  (fst out @ [length rs ..< length rs + length as],
                   snd out @ concat (map (\<lambda>a. Receipt_Logs (rs ! a)) as))) \<and>
           length rs' = length rs + length as \<and>
           length ls' = length ls \<and>
           (\<forall>k < length as. rs' ! (length rs + k) = located h n (i + k) (rs ! (as ! k))) \<and>
           (\<forall>a < length rs. a \<notin> set as \<longrightarrow> rs' ! a = rs ! a) \<and>
           (\<forall>j < length ls.
              ls' ! j = (if j \<in> (\<Union>a \<in> set as. set (Receipt_Logs (rs ! a)))
                         then stampLog h (ls ! j) else ls ! j))"
  using assms
proof (induction as arbitrary: rs ls i out)
  case Nil
  then show ?case by simp
next
  case (Cons a as)
  let ?r1 = "located h n i (rs ! a)"
  let ?rs2 = "rs[a := ?r1] @ [?r1]"
  let ?out = "(fst out @ [length rs], snd out @ Receipt_Logs (rs ! a))"
  from Cons.prems have a: "a < length rs"
    and la: "list_all (\<lambda>l. l < length ls) (Receipt_Logs (rs ! a))"
    and vas: "\<forall>b \<in> set as. b < length rs \<and> list_all (\<lambda>l. l < length ls) (Receipt_Logs (rs ! b))"
    by (simp_all add: validReceipts_def list_all_iff)
  from stampLogs_valid [OF la, of h] obtain ls1 where
    logs: "stampLogs h (Receipt_Logs (rs ! a)) ls = Inr ls1" and len1: "length ls1 = length ls"
    and at1: "\<forall>j < length ls. ls1 ! j =
                (if j \<in> set (Receipt_Logs (rs ! a)) then stampLog h (ls ! j) else ls ! j)"
    by blast
  have same: "Receipt_Logs (?rs2 ! b) = Receipt_Logs (rs ! b)" if "b < length rs" for b
    using that by (cases "b = a") (simp_all add: nth_append located_Logs)
  have v2: "validReceipts as ?rs2 ls1"
    unfolding validReceipts_def list_all_iff
  proof
    fix b assume b: "b \<in> set as"
    with vas have bl: "b < length rs" and bv: "list_all (\<lambda>l. l < length ls) (Receipt_Logs (rs ! b))"
      by simp_all
    show "b < length ?rs2 \<and> (\<forall>l \<in> set (Receipt_Logs (?rs2 ! b)). l < length ls1)"
      using bl bv by (simp add: same len1 list_all_iff)
  qed
  from Cons.IH [OF v2, of "Suc i" ?out] obtain rs' ls' where
    run: "stampReceipts h n (Suc i) as (?rs2, ls1) ?out =
            Inr ((rs', ls'),
                 (fst ?out @ [length ?rs2 ..< length ?rs2 + length as],
                  snd ?out @ concat (map (\<lambda>a. Receipt_Logs (?rs2 ! a)) as)))"
    and lenr: "length rs' = length ?rs2 + length as"
    and lenl: "length ls' = length ls1"
    and copies: "\<forall>k < length as. rs' ! (length ?rs2 + k) = located h n (Suc i + k) (?rs2 ! (as ! k))"
    and kept: "\<forall>b < length ?rs2. b \<notin> set as \<longrightarrow> rs' ! b = ?rs2 ! b"
    and logs': "\<forall>j < length ls1.
              ls' ! j = (if j \<in> (\<Union>a \<in> set as. set (Receipt_Logs (?rs2 ! a)))
                         then stampLog h (ls1 ! j) else ls1 ! j)"
    by blast
  have cc: "concat (map (\<lambda>a. Receipt_Logs (?rs2 ! a)) as) =
            concat (map (\<lambda>a. Receipt_Logs (rs ! a)) as)"
    using vas by (intro arg_cong [where f = concat] map_cong refl same) simp
  have un: "(\<Union>a \<in> set as. set (Receipt_Logs (?rs2 ! a))) =
            (\<Union>a \<in> set as. set (Receipt_Logs (rs ! a)))"
    using vas same by auto
  have notin: "length rs \<notin> set as"
    using vas by auto
  have upt: "[length rs] @ [length ?rs2 ..< length ?rs2 + length as] =
             [length rs ..< length rs + length (a # as)]"
  proof -
    have "[length rs ..< Suc (length rs + length as)] =
          length rs # [Suc (length rs) ..< Suc (length rs + length as)]"
      by (rule upt_conv_Cons) simp
    then show ?thesis by simp
  qed
  have res: "stampReceipts h n i (a # as) (rs, ls) out =
             Inr ((rs', ls'),
                  (fst out @ [length rs ..< length rs + length (a # as)],
                   snd out @ concat (map (\<lambda>a. Receipt_Logs (rs ! a)) (a # as))))"
    unfolding stampReceipts_Cons [OF a logs] run cc
    using upt by simp
  have c1: "length rs' = length rs + length (a # as)"
    using lenr by simp
  have c2: "length ls' = length ls"
    using lenl len1 by simp
  have c3: "\<forall>k < length (a # as). rs' ! (length rs + k) = located h n (i + k) (rs ! ((a # as) ! k))"
  proof (intro allI impI)
    fix k assume k: "k < length (a # as)"
    show "rs' ! (length rs + k) = located h n (i + k) (rs ! ((a # as) ! k))"
    proof (cases k)
      case 0
      have "rs' ! length rs = ?rs2 ! length rs"
        using kept notin by simp
      then show ?thesis using 0 by (simp add: nth_append)
    next
      case (Suc k')
      with k have k': "k' < length as" by simp
      then have mem: "as ! k' \<in> set as" by simp
      with vas have bl: "as ! k' < length rs" by simp
      have "rs' ! (length ?rs2 + k') = located h n (Suc i + k') (?rs2 ! (as ! k'))"
        using copies k' by simp
      moreover have "located h n (Suc i + k') (?rs2 ! (as ! k')) =
                     located h n (Suc i + k') (rs ! (as ! k'))"
        using bl by (cases "as ! k' = a") (simp_all add: nth_append located_located)
      ultimately show ?thesis using Suc by simp
    qed
  qed
  have c4: "\<forall>b < length rs. b \<notin> set (a # as) \<longrightarrow> rs' ! b = rs ! b"
  proof (intro allI impI)
    fix b assume b: "b < length rs" and nb: "b \<notin> set (a # as)"
    then have "rs' ! b = ?rs2 ! b" using kept by simp
    then show "rs' ! b = rs ! b" using b nb by (simp add: nth_append)
  qed
  have c5: "\<forall>j < length ls.
              ls' ! j = (if j \<in> (\<Union>a \<in> set (a # as). set (Receipt_Logs (rs ! a)))
                         then stampLog h (ls ! j) else ls ! j)"
  proof (intro allI impI)
    fix j assume j: "j < length ls"
    have "ls' ! j = (if j \<in> (\<Union>a \<in> set as. set (Receipt_Logs (rs ! a)))
                         then stampLog h (ls1 ! j) else ls1 ! j)"
      using logs' j len1 un by simp
    moreover have "ls1 ! j =
                (if j \<in> set (Receipt_Logs (rs ! a)) then stampLog h (ls ! j) else ls ! j)"
      using at1 j by simp
    ultimately show "ls' ! j = (if j \<in> (\<Union>a \<in> set (a # as). set (Receipt_Logs (rs ! a)))
                         then stampLog h (ls ! j) else ls ! j)"
      by (simp add: stampLog_idem)
  qed
  from res c1 c2 c3 c4 c5 show ?case by blast
qed

text \<open>
  For one result, what the round hands to the chain write: the receipt at position
  \<open>k\<close> carries the hash and number of the sealed block and the index \<open>k\<close>,
  every log of the task's receipts carries the block hash, and its transaction hash is
  the block hash when it was zero and what it was otherwise.
\<close>

lemma resultLoop_step_stamps:
  assumes "\<not> chain_HasBlock be (chain w) (Hash be blk) (NumberU64 blk)"
    and "pendingTasks w (engine_SealHash be (Header blk)) = Some t"
    and "validReceipts (receipts t) (receiptStore w) (logStore w)"
  shows "\<exists>w'. resultLoop_step be now (Some blk) w = Inr w' \<and>
           events w' ! length (events w) =
             EvWrite blk
               [length (receiptStore w) ..< length (receiptStore w) + length (receipts t)]
               (concat (map (\<lambda>a. Receipt_Logs (receiptStore w ! a)) (receipts t)))
               (state t) True \<and>
           (\<forall>k < length (receipts t).
              receiptStore w' ! (length (receiptStore w) + k) =
                located (Hash be blk) (BlockNumberOf blk) k (receiptStore w ! (receipts t ! k))) \<and>
           (\<forall>a \<in> set (receipts t). \<forall>j \<in> set (Receipt_Logs (receiptStore w ! a)).
              logStore w' ! j = stampLog (Hash be blk) (logStore w ! j))"
proof -
  from stampReceipts_valid [OF assms(3), of "Hash be blk" "BlockNumberOf blk" 0 "([], [])"]
  obtain rs' ls' where
    run: "stampReceipts (Hash be blk) (BlockNumberOf blk) 0 (receipts t)
            (receiptStore w, logStore w) ([], []) =
          Inr ((rs', ls'),
               ([length (receiptStore w) ..< length (receiptStore w) + length (receipts t)],
                concat (map (\<lambda>a. Receipt_Logs (receiptStore w ! a)) (receipts t))))"
    and copies: "\<forall>k < length (receipts t).
                   rs' ! (length (receiptStore w) + k) =
                     located (Hash be blk) (BlockNumberOf blk) k (receiptStore w ! (receipts t ! k))"
    and logs: "\<forall>j < length (logStore w).
                 ls' ! j = (if j \<in> (\<Union>a \<in> set (receipts t). set (Receipt_Logs (receiptStore w ! a)))
                            then stampLog (Hash be blk) (logStore w ! j) else logStore w ! j)"
    by auto
  have inlogs: "ls' ! j = stampLog (Hash be blk) (logStore w ! j)"
    if "a \<in> set (receipts t)" and "j \<in> set (Receipt_Logs (receiptStore w ! a))" for a j
  proof -
    from assms(3) that have "j < length (logStore w)"
      by (simp add: validReceipts_def list_all_iff)
    with logs that show ?thesis by auto
  qed
  show ?thesis
    using assms(1,2) copies inlogs
    by (cases "fst (chain_WriteBlockWithState be (chain w) blk
                 (map ((!) rs') [length (receiptStore w) ..< length (receiptStore w) + length (receipts t)])
                 (map ((!) ls') (concat (map (\<lambda>a. Receipt_Logs (receiptStore w ! a)) (receipts t))))
                 (deref (stateStore w) (state t)) True)")
      (simp_all add: resultLoop_step_def run Let_def nth_append)
qed

subsection \<open>Receipts of two results for one task\<close>

lemma demo_hash: "Hash demoBackend (demoBlock n p s) = of_nat (n * 10000 + p * 100 + s + 1)"
  by (simp add: demoBackend_def demoHash_def demoBlock_def)

lemma demo_first_result:
  "resultLoop_step demoBackend now (Some (demoBlock 2 1 7)) (demoWorker (demoTask 2)) =
     Inr ((demoWorker (demoTask 2))
       \<lparr>chain := [demoBlock 0 0 0, demoBlock 2 1 7],
        receiptStore :=
          [demoReceipt\<lparr>Receipt_BlockHash := 20108, Receipt_BlockNumber := 2\<rparr>,
           demoReceipt\<lparr>Receipt_BlockHash := 20108, Receipt_BlockNumber := 2\<rparr>],
        logStore :=
          [\<lparr>Log_Address = 1, Log_Data = 10, Log_BlockHash = 20108, Log_TxHash = 20108\<rparr>,
           \<lparr>Log_Address = 2, Log_Data = 20, Log_BlockHash = 20108, Log_TxHash = 77\<rparr>],
        events :=
          [EvWrite (demoBlock 2 1 7) [1] [0, 1] 0 True,
           EvGauge (now - 4000000000),
           EvLog Info ''Successfully sealed new block'',
           EvPost (demoBlock 2 1 7)]\<rparr>)"
  by (simp add: resultLoop_step_def demoBackend_def demoWorker_def newWorker_def demoHash_def
      demoBlock_def demoTask_def demoReceipt_def demoLogs_def NumberU64_def BlockNumberOf_def
      BlockTime_def deref_def stampLog_def located_def Let_def)

lemma demo_second_result:
  "resultLoop_step demoBackend now (Some (demoBlock 2 1 8))
     ((demoWorker (demoTask 2))
       \<lparr>chain := [demoBlock 0 0 0, demoBlock 2 1 7],
        receiptStore :=
          [demoReceipt\<lparr>Receipt_BlockHash := 20108, Receipt_BlockNumber := 2\<rparr>,
           demoReceipt\<lparr>Receipt_BlockHash := 20108, Receipt_BlockNumber := 2\<rparr>],
        logStore :=
          [\<lparr>Log_Address = 1, Log_Data = 10, Log_BlockHash = 20108, Log_TxHash = 20108\<rparr>,
           \<lparr>Log_Address = 2, Log_Data = 20, Log_BlockHash = 20108, Log_TxHash = 77\<rparr>],
        events := es\<rparr>) =
     Inr ((demoWorker (demoTask 2))
       \<lparr>chain := [demoBlock 0 0 0, demoBlock 2 1 7, demoBlock 2 1 8],
        receiptStore :=
          [demoReceipt\<lparr>Receipt_BlockHash := 20109, Receipt_BlockNumber := 2\<rparr>,
           demoReceipt\<lparr>Receipt_BlockHash := 20108, Receipt_BlockNumber := 2\<rparr>,
           demoReceipt\<lparr>Receipt_BlockHash := 20109, Receipt_BlockNumber := 2\<rparr>],
        logStore :=
          [\<lparr>Log_Address = 1, Log_Data = 10, Log_BlockHash = 20109, Log_TxHash = 20108\<rparr>,
           \<lparr>Log_Address = 2, Log_Data = 20, Log_BlockHash = 20109, Log_TxHash = 77\<rparr>],
        events := es @
          [EvWrite (demoBlock 2 1 8) [2] [0, 1] 0 True,
           EvGauge (now - 4000000000),
           EvLog Info ''Successfully sealed new block'',
           EvPost (demoBlock 2 1 8)]\<rparr>)"
  by (simp add: resultLoop_step_def demoBackend_def demoWorker_def newWorker_def demoHash_def
      demoBlock_def demoTask_def demoReceipt_def demoLogs_def NumberU64_def BlockNumberOf_def
      BlockTime_def deref_def stampLog_def located_def Let_def)

text \<open>
  C1 fails on the code. Two sealed blocks with the same seal hash and the hashes 20108
  and 20109 are resolved against the same pending task. The receipt handed to the first
  write and the receipt handed to the second are different cells, but their slices
  hold the same log pointers: after the second result the logs of the receipt committed
  with the first block carry the hash of the second block, and the finalization log,
  whose transaction hash was zero in the task, carries the hash of the first block in
  the second commit.
\<close>

theorem resultLoop_shares_logs:
  "engine_SealHash demoBackend (Header (demoBlock 2 1 7)) =
     engine_SealHash demoBackend (Header (demoBlock 2 1 8)) \<and>
   Hash demoBackend (demoBlock 2 1 7) = 20108 \<and>
   Hash demoBackend (demoBlock 2 1 8) = 20109 \<and>
   (case resultLoop demoBackend [(5000000000, Some (demoBlock 2 1 7)), (6000000000, Some (demoBlock 2 1 8))]
           (demoWorker (demoTask 2)) of
      Inl p \<Rightarrow> False
    | Inr w \<Rightarrow>
        writeCalls (events w) = [demoBlock 2 1 7, demoBlock 2 1 8] \<and>
        events w ! 0 = EvWrite (demoBlock 2 1 7) [1] [0, 1] 0 True \<and>
        events w ! 4 = EvWrite (demoBlock 2 1 8) [2] [0, 1] 0 True \<and>
        Receipt_Logs (receiptStore w ! 1) = Receipt_Logs (receiptStore w ! 2) \<and>
        Receipt_BlockHash (receiptStore w ! 1) = 20108 \<and>
        map Log_BlockHash (map (\<lambda>a. logStore w ! a) (Receipt_Logs (receiptStore w ! 1))) =
          [20109, 20109] \<and>
        map Log_TxHash (map (\<lambda>a. logStore w ! a) (Receipt_Logs (receiptStore w ! 2))) =
          [20108, 77])"
proof -
  have run: "resultLoop demoBackend
               [(5000000000, Some (demoBlock 2 1 7)), (6000000000, Some (demoBlock 2 1 8))]
               (demoWorker (demoTask 2)) =
             Inr ((demoWorker (demoTask 2))
               \<lparr>chain := [demoBlock 0 0 0, demoBlock 2 1 7, demoBlock 2 1 8],
                receiptStore :=
                  [demoReceipt\<lparr>Receipt_BlockHash := 20109, Receipt_BlockNumber := 2\<rparr>,
                   demoReceipt\<lparr>Receipt_BlockHash := 20108, Receipt_BlockNumber := 2\<rparr>,
                   demoReceipt\<lparr>Receipt_BlockHash := 20109, Receipt_BlockNumber := 2\<rparr>],
                logStore :=
                  [\<lparr>Log_Address = 1, Log_Data = 10, Log_BlockHash = 20109, Log_TxHash = 20108\<rparr>,
                   \<lparr>Log_Address = 2, Log_Data = 20, Log_BlockHash = 20109, Log_TxHash = 77\<rparr>],
                events :=
                  [EvWrite (demoBlock 2 1 7) [1] [0, 1] 0 True,
                   EvGauge (5000000000 - 4000000000),
                   EvLog Info ''Successfully sealed new block'',
                   EvPost (demoBlock 2 1 7),
                   EvWrite (demoBlock 2 1 8) [2] [0, 1] 0 True,
                   EvGauge (6000000000 - 4000000000),
                   EvLog Info ''Successfully sealed new block'',
                   EvPost (demoBlock 2 1 8)]\<rparr>)"
    by (simp only: resultLoop.simps fst_conv snd_conv demo_first_result demo_second_result
        sum.case append.simps)
  show ?thesis
    unfolding run by (simp add: demo_sealHash demo_hash demoReceipt_def)
qed

end
